theory Spec2Isabelle
  imports Main "HOL-Library.Word"
begin

section \<open>Go runtime values shared by both packages\<close>

text \<open>
  A Go \<open>error\<close> value is identified with the text its \<open>Error()\<close> method yields;
  the nil error is \<open>None\<close> of \<open>error option\<close>. A runtime panic (a nil pointer
  dereference, the close of a closed channel) is a value of its own, so that every
  operation that can panic returns \<open>panic + 'a\<close>.
\<close>

datatype error = Err string

fun Error :: "error \<Rightarrow> string" where
  "Error (Err msg) = msg"

datatype panic = NilPointerDereference | InvalidPointer | CloseOfClosedChannel

section \<open>consumerOptions.go: the partial-construction option\<close>

text \<open>
  \<open>consumerErrorList\<close> is declared outside the files at hand; the accessor reads its
  field \<open>errs\<close> and returns it as \<open>[]ConsumerError\<close>, which fixes the shape used
  here. A slice is \<open>'e list option\<close>: \<open>None\<close> is the nil slice. The element type
  \<open>ConsumerError\<close> stays a type parameter.

  \<open>partialConstruction.errs\<close> is a pointer \<open>*consumerErrorList\<close>: \<open>None\<close> is the
  nil pointer. Options of type \<open>*partialConstruction\<close> are shared and mutated through
  the pointer (\<open>addPartialConstructionError\<close>), so the structs live in a heap: a list
  indexed by address.
\<close>

record 'e consumerErrorList =
  errs_of_list :: "'e list option"

record 'e partialConstruction =
  enabled :: bool
  errs :: "'e consumerErrorList option"

type_synonym 'e heap = "'e partialConstruction list"

text \<open>
  A \<open>ConsumerOption\<close> interface value: the nil interface, a \<open>*partialConstruction\<close>
  (itself possibly a nil pointer: \<open>None\<close>), or a value of any other implementing type.
\<close>

datatype 'o ConsumerOption =
    NilOption
  | PartialConstructionPtr "nat option"
  | OtherOption 'o

text \<open>
  \<open>pe, ok := option.(*partialConstruction)\<close>; \<open>if !ok { return nil }\<close>;
  \<open>return pe.errs.errs\<close>. Both selector steps dereference a pointer.
\<close>

definition PartialConstructionError ::
  "'e heap \<Rightarrow> 'o ConsumerOption \<Rightarrow> panic + 'e list option" where
  "PartialConstructionError h option =
     (case option of
        PartialConstructionPtr pe \<Rightarrow>
          (case pe of
             None \<Rightarrow> Inl NilPointerDereference
           | Some a \<Rightarrow>
               if a < length h then
                 (case errs (h ! a) of
                    None \<Rightarrow> Inl NilPointerDereference
                  | Some l \<Rightarrow> Inr (errs_of_list l))
               else Inl InvalidPointer)
      | _ \<Rightarrow> Inr None)"

text \<open>\<open>return &partialConstruction{enabled: true}\<close>: a new struct, \<open>errs\<close> left nil.\<close>

definition EnablePartialConstruction :: "'e heap \<Rightarrow> 'e heap \<times> 'o ConsumerOption" where
  "EnablePartialConstruction h =
     (h @ [\<lparr>enabled = True, errs = None\<rparr>], PartialConstructionPtr (Some (length h)))"

text \<open>
  \<open>addPartialConstructionError\<close>: every option of the list that is a
  \<open>*partialConstruction\<close> gets \<open>pe.errs = errs\<close>, written through the pointer.
\<close>

fun addPartialConstructionError ::
  "'o ConsumerOption list \<Rightarrow> 'e consumerErrorList option \<Rightarrow> 'e heap \<Rightarrow> panic + 'e heap" where
  "addPartialConstructionError [] el h = Inr h"
| "addPartialConstructionError (opt # c) el h =
     (case opt of
        PartialConstructionPtr pe \<Rightarrow>
          (case pe of
             None \<Rightarrow> Inl NilPointerDereference
           | Some a \<Rightarrow>
               if a < length h
               then addPartialConstructionError c el (h[a := (h ! a)\<lparr>errs := el\<rparr>])
               else Inl InvalidPointer)
      | _ \<Rightarrow> addPartialConstructionError c el h)"

section \<open>multiclusterConsumer.go: data\<close>

text \<open>
  \<open>kafka.Topic\<close> and \<open>kafka.ConsumerTopic\<close> are declared in another package; their
  fields are the ones the test suite's composite literals name. \<open>kafka.OffsetRange\<close> is
  only passed through and stays the type parameter \<open>'r\<close>. A partition is an \<open>int32\<close>.
\<close>

type_synonym int32 = "32 word"

record Topic =
  Name :: string
  Cluster :: string
  BrokerList :: "string list"

record ConsumerTopic =
  Topic :: Topic
  DLQ :: Topic

text \<open>
  The per-cluster consumers (\<open>*ClusterConsumer\<close>) and the broker clients
  (\<open>sarama.Client\<close>) are collaborators reached through a reference. What the
  coordinator does to them, to its logger, to its metrics scope and to its done channel
  is recorded, in program order, as a trace of events; a call that returns a value
  records the value returned.
\<close>

datatype ClusterConsumer = ClusterConsumerPtr nat

datatype Client = ClientRef nat

datatype metric = KafkaConsumerStarted | KafkaConsumerStopped

datatype field =
    zap_Error error
  | zap_String string string
  | zap_Array string "ConsumerTopic list"

datatype 'r event =
    ClusterConsumer_Start ClusterConsumer "error option"
  | ClusterConsumer_Stop ClusterConsumer
  | ClusterConsumer_ResetOffset ClusterConsumer string int32 'r "error option"
  | Client_Close Client "error option"
  | close_doneC
  | logger_Error string "field list"
  | logger_Info string "field list"
  | Counter_Inc metric

text \<open>
  The collaborators' answers. Each may depend on everything that has happened so far
  (the trace up to the call), which covers collaborators with state of their own; the
  theorems hold for every such behaviour. \<open>ClusterConsumer.Stop\<close> returns nothing.
\<close>

record 'r collaborators =
  consumer_Start :: "'r event list \<Rightarrow> ClusterConsumer \<Rightarrow> error option"
  consumer_ResetOffset ::
    "'r event list \<Rightarrow> ClusterConsumer \<Rightarrow> string \<Rightarrow> int32 \<Rightarrow> 'r \<Rightarrow> error option"
  client_Close :: "'r event list \<Rightarrow> Client \<Rightarrow> error option"

text \<open>
  Modelled from the spec: \<open>util.RunLifecycle\<close>, whose source is not among the files. The
  spec gives it the phases \<open>NotStarted\<close>, \<open>Starting\<close>, \<open>Running\<close>, \<open>Stopping\<close>,
  \<open>Stopped\<close>; the constructor takes the name the coordinator passes.
\<close>

datatype phase = NotStarted | Starting | Running | Stopping | Stopped

record RunLifecycle =
  lifecycle_name :: string
  phase :: phase

definition NewRunLifecycle :: "string \<Rightarrow> RunLifecycle" where
  "NewRunLifecycle name = \<lparr>lifecycle_name = name, phase = NotStarted\<rparr>"

text \<open>
  The struct. The two channels are held by what the coordinator can do to them: a channel
  is open or closed. \<open>scope\<close> and \<open>logger\<close> appear through their events only.
\<close>

datatype chan = Open | Closed

record MultiClusterConsumer =
  groupName :: string
  topics :: "ConsumerTopic list"
  clusterConsumerMap :: "string \<rightharpoonup> ClusterConsumer"
  clusterToSaramaClientMap :: "string \<rightharpoonup> Client"
  msgC :: chan
  doneC :: chan
  lifecycle :: RunLifecycle

record 'r state =
  coord :: MultiClusterConsumer
  trace :: "'r event list"

definition emit :: "'r event \<Rightarrow> 'r state \<Rightarrow> 'r state" where
  "emit e s = s\<lparr>trace := trace s @ [e]\<rparr>"

definition set_phase :: "phase \<Rightarrow> 'r state \<Rightarrow> 'r state" where
  "set_phase p s = s\<lparr>coord := (coord s)\<lparr>lifecycle := (lifecycle (coord s))\<lparr>phase := p\<rparr>\<rparr>\<rparr>"

text \<open>\<open>doneC: make(chan struct{})\<close>: a new, open channel.\<close>

definition NewMultiClusterConsumer ::
  "string \<Rightarrow> ConsumerTopic list \<Rightarrow> (string \<rightharpoonup> ClusterConsumer) \<Rightarrow> (string \<rightharpoonup> Client)
     \<Rightarrow> chan \<Rightarrow> MultiClusterConsumer" where
  "NewMultiClusterConsumer name ts consumers saramaClients ch =
     \<lparr>groupName = name, topics = ts, clusterConsumerMap = consumers,
      clusterToSaramaClientMap = saramaClients, msgC = ch, doneC = Open,
      lifecycle = NewRunLifecycle (name @ ''-consumer'')\<rparr>"

text \<open>
  A \<open>for k, v := range m\<close> visits every key of the map once, in an order Go leaves
  open. Each loop of the model is given the order \<open>ks\<close> its run happens to take;
  \<open>range_order m ks\<close> says that \<open>ks\<close> is such an order, \<open>range_entries m ks\<close> are
  the entries visited.
\<close>

definition range_order :: "('k \<rightharpoonup> 'v) \<Rightarrow> 'k list \<Rightarrow> bool" where
  "range_order m ks \<longleftrightarrow> distinct ks \<and> set ks = dom m"

definition range_entries :: "('k \<rightharpoonup> 'v) \<Rightarrow> 'k list \<Rightarrow> ('k \<times> 'v) list" where
  "range_entries m ks = List.map_filter (\<lambda>k. map_option (Pair k) (m k)) ks"

section \<open>multiclusterConsumer.go: the lifecycle guard\<close>

text \<open>
  Modelled from the spec: \<open>RunLifecycle.Start\<close>. Past \<open>NotStarted\<close> it returns at once
  with the "not started twice" error and does not invoke the action; otherwise it moves
  to \<open>Starting\<close>, invokes the action once, and moves to \<open>Running\<close> when the action
  succeeds. When the action fails the phase stays where it is: tearing down is left to
  the caller.
\<close>

definition errStartedTwice :: error where
  "errStartedTwice = Err ''not started twice''"

definition RunLifecycle_Start ::
  "('r state \<Rightarrow> error option \<times> 'r state) \<Rightarrow> 'r state \<Rightarrow> error option \<times> 'r state" where
  "RunLifecycle_Start action s =
     (if phase (lifecycle (coord s)) \<noteq> NotStarted then (Some errStartedTwice, s)
      else case action (set_phase Starting s) of
             (None, s') \<Rightarrow> (None, set_phase Running s')
           | (Some e, s') \<Rightarrow> (Some e, s'))"

text \<open>
  Modelled from the spec: \<open>RunLifecycle.Stop\<close>. When the guard is already \<open>Stopped\<close> or
  was never started the action is not invoked and nothing changes; otherwise the guard
  moves to \<open>Stopping\<close>, invokes the teardown once, and ends \<open>Stopped\<close>.
\<close>

definition RunLifecycle_Stop ::
  "('r state \<Rightarrow> panic + 'r state) \<Rightarrow> 'r state \<Rightarrow> panic + 'r state" where
  "RunLifecycle_Stop action s =
     (if phase (lifecycle (coord s)) = NotStarted \<or> phase (lifecycle (coord s)) = Stopped
      then Inr s
      else case action (set_phase Stopping s) of
             Inl p \<Rightarrow> Inl p
           | Inr s' \<Rightarrow> Inr (set_phase Stopped s'))"

section \<open>multiclusterConsumer.go: the methods\<close>

definition Name' :: "MultiClusterConsumer \<Rightarrow> string" where
  "Name' c = groupName c"

definition Topics :: "MultiClusterConsumer \<Rightarrow> ConsumerTopic list" where
  "Topics c = topics c"

definition Closed' :: "MultiClusterConsumer \<Rightarrow> chan" where
  "Closed' c = doneC c"

definition Messages :: "MultiClusterConsumer \<Rightarrow> chan" where
  "Messages c = msgC c"

text \<open>
  The function \<open>Start\<close> hands to the guard. \<open>err\<close> is the named result: the loop
  returns at the first consumer whose \<open>Start\<close> fails, after logging it, and falls
  through with \<open>err\<close> nil otherwise.
\<close>

fun Start_range ::
  "'r collaborators \<Rightarrow> (string \<times> ClusterConsumer) list \<Rightarrow> 'r state \<Rightarrow> error option \<times> 'r state" where
  "Start_range env [] s = (None, s)"
| "Start_range env ((clusterName, consumer) # rest) s =
     (let err = consumer_Start env (trace s) consumer;
          s1 = emit (ClusterConsumer_Start consumer err) s
      in case err of
           Some e \<Rightarrow>
             (Some e,
              emit (logger_Error ''multicluster consumer start error''
                      [zap_Error e, zap_String ''cluster'' clusterName]) s1)
         | None \<Rightarrow> Start_range env rest s1)"

definition Start_action :: "'r collaborators \<Rightarrow> string list \<Rightarrow> 'r state \<Rightarrow> error option \<times> 'r state" where
  "Start_action env ks s = Start_range env (range_entries (clusterConsumerMap (coord s)) ks) s"

text \<open>The teardown \<open>Stop\<close> hands to the guard: three steps, then the log line and the counter.\<close>

fun Stop_range :: "(string \<times> ClusterConsumer) list \<Rightarrow> 'r state \<Rightarrow> 'r state" where
  "Stop_range [] s = s"
| "Stop_range ((clusterName, consumer) # rest) s =
     Stop_range rest (emit (ClusterConsumer_Stop consumer) s)"

fun Close_range :: "'r collaborators \<Rightarrow> (string \<times> Client) list \<Rightarrow> 'r state \<Rightarrow> 'r state" where
  "Close_range env [] s = s"
| "Close_range env ((clusterName, client) # rest) s =
     Close_range env rest (emit (Client_Close client (client_Close env (trace s) client)) s)"

text \<open>The builtin \<open>close(c.doneC)\<close>: closing a closed channel panics.\<close>

definition close_done :: "'r state \<Rightarrow> panic + 'r state" where
  "close_done s =
     (if doneC (coord s) = Closed then Inl CloseOfClosedChannel
      else Inr (emit close_doneC (s\<lparr>coord := (coord s)\<lparr>doneC := Closed\<rparr>\<rparr>)))"

definition Stop_action ::
  "'r collaborators \<Rightarrow> string list \<Rightarrow> string list \<Rightarrow> 'r state \<Rightarrow> panic + 'r state" where
  "Stop_action env ks cks s =
     (let s1 = Stop_range (range_entries (clusterConsumerMap (coord s)) ks) s;
          s2 = Close_range env (range_entries (clusterToSaramaClientMap (coord s1)) cks) s1
      in case close_done s2 of
           Inl p \<Rightarrow> Inl p
         | Inr s3 \<Rightarrow>
             Inr (emit (Counter_Inc KafkaConsumerStopped)
                   (emit (logger_Info ''multicluster consumer stopped''
                            [zap_String ''groupName'' (groupName (coord s3)),
                             zap_Array ''topicList'' (topics (coord s3))]) s3)))"

definition Stop ::
  "'r collaborators \<Rightarrow> string list \<Rightarrow> string list \<Rightarrow> 'r state \<Rightarrow> panic + 'r state" where
  "Stop env ks cks s = RunLifecycle_Stop (Stop_action env ks cks) s"

text \<open>
  \<open>Start\<close>: \<open>ks\<close> is the order of its own loop, \<open>sks\<close> and \<open>cks\<close> are the orders
  of the two loops of the \<open>Stop\<close> it calls when the guard returns an error.
\<close>

definition Start ::
  "'r collaborators \<Rightarrow> string list \<Rightarrow> string list \<Rightarrow> string list \<Rightarrow> 'r state
     \<Rightarrow> panic + (error option \<times> 'r state)" where
  "Start env ks sks cks s =
     (case RunLifecycle_Start (Start_action env ks) s of
        (Some err, s1) \<Rightarrow>
          (case Stop env sks cks s1 of
             Inl p \<Rightarrow> Inl p
           | Inr s2 \<Rightarrow> Inr (Some err, s2))
      | (None, s1) \<Rightarrow>
          Inr (None,
               emit (Counter_Inc KafkaConsumerStarted)
                 (emit (logger_Info ''multicluster consumer started''
                          [zap_String ''groupName'' (groupName (coord s1)),
                           zap_Array ''topicList'' (topics (coord s1))]) s1)))"

definition ResetOffset ::
  "'r collaborators \<Rightarrow> string \<Rightarrow> string \<Rightarrow> int32 \<Rightarrow> 'r \<Rightarrow> 'r state \<Rightarrow> error option \<times> 'r state" where
  "ResetOffset env cluster topic partition' offsetRange s =
     (case clusterConsumerMap (coord s) cluster of
        None \<Rightarrow> (Some (Err ''no cluster consumer found''), s)
      | Some cc \<Rightarrow>
          (let r = consumer_ResetOffset env (trace s) cc topic partition' offsetRange
           in (r, emit (ClusterConsumer_ResetOffset cc topic partition' offsetRange r) s)))"

text \<open>
  \<open>fmt.Sprintf("partition=%d err=%s", partition, err)\<close>: \<open>%d\<close> prints the signed
  value in decimal, \<open>%s\<close> prints \<open>err.Error()\<close>.
\<close>

definition digit :: "nat \<Rightarrow> char" where
  "digit n = ''0123456789'' ! n"

fun digits :: "nat \<Rightarrow> string" where
  "digits n = (if n < 10 then [digit n] else digits (n div 10) @ [digit (n mod 10)])"

declare digits.simps [simp del]

definition format_d :: "int \<Rightarrow> string" where
  "format_d i = (if i < 0 then CHR ''-'' # digits (nat (- i)) else digits (nat i))"

definition Sprintf_partition_err :: "int32 \<Rightarrow> error \<Rightarrow> string" where
  "Sprintf_partition_err partition' err =
     ''partition='' @ format_d (sint partition') @ '' err='' @ Error err"

text \<open>\<open>strings.Join(elems, sep)\<close>.\<close>

fun Join :: "string list \<Rightarrow> string \<Rightarrow> string" where
  "Join [] sep = []"
| "Join [x] sep = x"
| "Join (x # y # ys) sep = x @ sep @ Join (y # ys) sep"

fun MergeDLQ_range ::
  "'r collaborators \<Rightarrow> ConsumerTopic \<Rightarrow> (int32 \<times> 'r) list \<Rightarrow> string list \<Rightarrow> 'r state
     \<Rightarrow> string list \<times> 'r state" where
  "MergeDLQ_range env topic [] errList s = (errList, s)"
| "MergeDLQ_range env topic ((partition', offsetRange) # rest) errList s =
     (case ResetOffset env (Cluster (DLQ topic)) (Name (DLQ topic)) partition' offsetRange s of
        (Some err, s') \<Rightarrow>
          MergeDLQ_range env topic rest (errList @ [Sprintf_partition_err partition' err]) s'
      | (None, s') \<Rightarrow> MergeDLQ_range env topic rest errList s')"

definition MergeDLQ ::
  "'r collaborators \<Rightarrow> ConsumerTopic \<Rightarrow> (int32 \<rightharpoonup> 'r) \<Rightarrow> int32 list \<Rightarrow> 'r state
     \<Rightarrow> error option \<times> 'r state" where
  "MergeDLQ env topic offsetRanges ks s =
     (case MergeDLQ_range env topic (range_entries offsetRanges ks) [] s of
        (errList, s') \<Rightarrow>
          if length errList = 0 then (None, s')
          else (Some (Err (''DLQ merge failed for '' @ Join errList '','')), s'))"

section \<open>Sequences of calls\<close>

text \<open>
  A caller's session with one coordinator: any sequence of calls of the public methods,
  each loop with the order its run takes. A panic ends the session.
\<close>

datatype 'r call =
    Call_Start "string list" "string list" "string list"
  | Call_Stop "string list" "string list"
  | Call_ResetOffset string string int32 'r
  | Call_MergeDLQ ConsumerTopic "int32 \<rightharpoonup> 'r" "int32 list"
  | Call_Name
  | Call_Topics
  | Call_Closed
  | Call_Messages

datatype ret =
    Ret_error "error option"
  | Ret_nothing
  | Ret_string string
  | Ret_topics "ConsumerTopic list"
  | Ret_chan chan

fun exec :: "'r collaborators \<Rightarrow> 'r call \<Rightarrow> 'r state \<Rightarrow> panic + (ret \<times> 'r state)" where
  "exec env (Call_Start ks sks cks) s =
     (case Start env ks sks cks s of Inl p \<Rightarrow> Inl p | Inr (e, s') \<Rightarrow> Inr (Ret_error e, s'))"
| "exec env (Call_Stop ks cks) s =
     (case Stop env ks cks s of Inl p \<Rightarrow> Inl p | Inr s' \<Rightarrow> Inr (Ret_nothing, s'))"
| "exec env (Call_ResetOffset cluster topic partition' offsetRange) s =
     (case ResetOffset env cluster topic partition' offsetRange s of
        (e, s') \<Rightarrow> Inr (Ret_error e, s'))"
| "exec env (Call_MergeDLQ topic offsetRanges ks) s =
     (case MergeDLQ env topic offsetRanges ks s of (e, s') \<Rightarrow> Inr (Ret_error e, s'))"
| "exec env Call_Name s = Inr (Ret_string (Name' (coord s)), s)"
| "exec env Call_Topics s = Inr (Ret_topics (Topics (coord s)), s)"
| "exec env Call_Closed s = Inr (Ret_chan (Closed' (coord s)), s)"
| "exec env Call_Messages s = Inr (Ret_chan (Messages (coord s)), s)"

fun run :: "'r collaborators \<Rightarrow> 'r call list \<Rightarrow> 'r state \<Rightarrow> panic + (ret list \<times> 'r state)" where
  "run env [] s = Inr ([], s)"
| "run env (c # cs) s =
     (case exec env c s of
        Inl p \<Rightarrow> Inl p
      | Inr (r, s') \<Rightarrow>
          (case run env cs s' of Inl p \<Rightarrow> Inl p | Inr (rs, s'') \<Rightarrow> Inr (r # rs, s'')))"

text \<open>The orders a call names are orders of the coordinator's two maps.\<close>

fun call_ok :: "MultiClusterConsumer \<Rightarrow> 'r call \<Rightarrow> bool" where
  "call_ok c (Call_Start ks sks cks) \<longleftrightarrow>
     range_order (clusterConsumerMap c) ks \<and> range_order (clusterConsumerMap c) sks \<and>
     range_order (clusterToSaramaClientMap c) cks"
| "call_ok c (Call_Stop ks cks) \<longleftrightarrow>
     range_order (clusterConsumerMap c) ks \<and> range_order (clusterToSaramaClientMap c) cks"
| "call_ok c (Call_MergeDLQ topic offsetRanges ks) \<longleftrightarrow> range_order offsetRanges ks"
| "call_ok c _ \<longleftrightarrow> True"

definition fresh :: "MultiClusterConsumer \<Rightarrow> 'r state" where
  "fresh c = \<lparr>coord = c, trace = []\<rparr>"

section \<open>Reference definitions for the delegation claims\<close>

text \<open>
  What the spec says \<open>MergeDLQ\<close> does, written on its own: one \<open>ResetOffset\<close> call
  to a fixed cluster and topic for every entry, in order, each outcome kept with its
  partition; and the failure strings of a list of outcomes.
\<close>

fun ResetOffset_each ::
  "'r collaborators \<Rightarrow> string \<Rightarrow> string \<Rightarrow> (int32 \<times> 'r) list \<Rightarrow> 'r state
     \<Rightarrow> (int32 \<times> error option) list \<times> 'r state" where
  "ResetOffset_each env cluster topic [] s = ([], s)"
| "ResetOffset_each env cluster topic ((p, r) # rest) s =
     (case ResetOffset env cluster topic p r s of
        (e, s') \<Rightarrow>
          (case ResetOffset_each env cluster topic rest s' of
             (out, s'') \<Rightarrow> ((p, e) # out, s'')))"

fun failures :: "(int32 \<times> error option) list \<Rightarrow> string list" where
  "failures [] = []"
| "failures ((p, None) # out) = failures out"
| "failures ((p, Some e) # out) = Sprintf_partition_err p e # failures out"

section \<open>A concrete coordinator\<close>

text \<open>
  The topic of the test suite, three clusters of which the dead-letter cluster is one, and
  collaborators that fail in chosen places: consumer 2 fails to start, resets of
  partitions 1 and 2 fail, every client fails to close.
\<close>

definition ex_topic :: ConsumerTopic where
  "ex_topic =
     \<lparr>Topic = \<lparr>Name = ''unit-test'', Cluster = ''production-cluster'', BrokerList = []\<rparr>,
      DLQ = \<lparr>Name = ''unit-test-dlq'', Cluster = ''dlq-cluster'', BrokerList = []\<rparr>\<rparr>"

definition ex_env :: "nat collaborators" where
  "ex_env =
     \<lparr>consumer_Start = (\<lambda>h c. if c = ClusterConsumerPtr 2 then Some (Err ''error'') else None),
      consumer_ResetOffset = (\<lambda>h c t p r. if p = 1 \<or> p = 2 then Some (Err ''boom'') else None),
      client_Close = (\<lambda>h c. Some (Err ''close failed''))\<rparr>"

definition ex_consumers :: "string \<rightharpoonup> ClusterConsumer" where
  "ex_consumers =
     [''cc1'' \<mapsto> ClusterConsumerPtr 1, ''cc2'' \<mapsto> ClusterConsumerPtr 2,
      ''dlq-cluster'' \<mapsto> ClusterConsumerPtr 3]"

definition ex_clients :: "string \<rightharpoonup> Client" where
  "ex_clients = [''cc1'' \<mapsto> ClientRef 1]"

definition ex_coord :: MultiClusterConsumer where
  "ex_coord = NewMultiClusterConsumer ''unit-test-cg'' [ex_topic] ex_consumers ex_clients Open"

definition ex_ranges :: "int32 \<rightharpoonup> nat" where
  "ex_ranges = [0 \<mapsto> 10, 1 \<mapsto> 11, 2 \<mapsto> 12]"

text \<open>
  Collaborators whose starts all succeed (closes still fail), and the state the concrete
  coordinator is in after its \<open>Start\<close> with them.
\<close>

definition ex_env_ok :: "nat collaborators" where
  "ex_env_ok =
     \<lparr>consumer_Start = (\<lambda>h c. None),
      consumer_ResetOffset = (\<lambda>h c t p r. None),
      client_Close = (\<lambda>h c. Some (Err ''close failed''))\<rparr>"

definition ex_running :: "nat state" where
  "ex_running =
     \<lparr>coord = ex_coord\<lparr>lifecycle := (lifecycle ex_coord)\<lparr>phase := Running\<rparr>\<rparr>,
      trace =
        [ClusterConsumer_Start (ClusterConsumerPtr 1) None,
         ClusterConsumer_Start (ClusterConsumerPtr 2) None,
         ClusterConsumer_Start (ClusterConsumerPtr 3) None,
         logger_Info ''multicluster consumer started''
           [zap_String ''groupName'' ''unit-test-cg'', zap_Array ''topicList'' [ex_topic]],
         Counter_Inc KafkaConsumerStarted]\<rparr>"

text \<open>A session: a failing \<open>Start\<close>, two \<open>Stop\<close> calls, then the two channel getters.\<close>

definition ex_calls :: "nat call list" where
  "ex_calls =
     [Call_Start [''cc1'', ''cc2'', ''dlq-cluster''] [''dlq-cluster'', ''cc2'', ''cc1''] [''cc1''],
      Call_Stop [''cc1'', ''cc2'', ''dlq-cluster''] [''cc1''],
      Call_Stop [''dlq-cluster'', ''cc2'', ''cc1''] [''cc1''],
      Call_Closed, Call_Messages]"

section \<open>Invariants and observations used by the lifecycle claims\<close>

text \<open>
  \<open>starts\<close> reads the consumer starts off a trace. \<open>guard_inv\<close> ties the done channel
  to the guard, \<open>stopped_all\<close> says that a stopped coordinator has stopped every
  registered consumer, \<open>same_config\<close> compares what no method may change, and
  \<open>invokes_Stop\<close> recognises the calls that go through \<open>Stop\<close>.
\<close>

fun starts :: "'r event list \<Rightarrow> (ClusterConsumer \<times> error option) list" where
  "starts [] = []"
| "starts (ClusterConsumer_Start c r # evs) = (c, r) # starts evs"
| "starts (ev # evs) = starts evs"

definition guard_inv :: "'r state \<Rightarrow> bool" where
  "guard_inv s \<longleftrightarrow> (doneC (coord s) = Closed \<longleftrightarrow> phase (lifecycle (coord s)) = Stopped)"

definition stopped_all :: "'r state \<Rightarrow> bool" where
  "stopped_all s \<longleftrightarrow>
     (phase (lifecycle (coord s)) = Stopped \<longrightarrow>
        (\<forall>cc \<in> ran (clusterConsumerMap (coord s)). ClusterConsumer_Stop cc \<in> set (trace s)))"

fun invokes_Stop :: "'r call \<Rightarrow> ret \<Rightarrow> bool" where
  "invokes_Stop (Call_Stop ks cks) r \<longleftrightarrow> True"
| "invokes_Stop (Call_Start ks sks cks) (Ret_error (Some e)) \<longleftrightarrow> True"
| "invokes_Stop c r \<longleftrightarrow> False"

definition same_config :: "MultiClusterConsumer \<Rightarrow> MultiClusterConsumer \<Rightarrow> bool" where
  "same_config c c' \<longleftrightarrow>
     groupName c' = groupName c \<and> topics c' = topics c \<and>
     clusterConsumerMap c' = clusterConsumerMap c \<and>
     clusterToSaramaClientMap c' = clusterToSaramaClientMap c \<and> msgC c' = msgC c"

section \<open>Results for consumerOptions.go\<close>

lemma PartialConstructionError_unrelated:
  "PartialConstructionError h NilOption = Inr None"
  "PartialConstructionError h (OtherOption x) = Inr None"
  by (simp_all add: PartialConstructionError_def)

lemma PartialConstructionError_attached:
  "addPartialConstructionError [snd (EnablePartialConstruction h)] (Some l)
     (fst (EnablePartialConstruction h)) = Inr h'
   \<Longrightarrow> PartialConstructionError h' (snd (EnablePartialConstruction h)) = Inr (errs_of_list l)"
  by (auto simp: PartialConstructionError_def EnablePartialConstruction_def)

text \<open>
  C9. The accessor is claimed to return without failure on every option, also on the
  option \<open>EnablePartialConstruction()\<close> has just returned. On that option the field
  \<open>errs\<close> is still the nil pointer, and \<open>pe.errs.errs\<close> dereferences it: whatever the
  heap before the call, the accessor panics.
\<close>

theorem PartialConstructionError_fresh_option_panics:
  "PartialConstructionError (fst (EnablePartialConstruction h))
     (snd (EnablePartialConstruction h)) = Inl NilPointerDereference"
  by (simp add: PartialConstructionError_def EnablePartialConstruction_def)

section \<open>Basic facts\<close>

lemma trace_emit [simp]: "trace (emit e s) = trace s @ [e]"
  by (simp add: emit_def)

lemma coord_emit [simp]: "coord (emit e s) = coord s"
  by (simp add: emit_def)

lemma range_entries_Nil [simp]: "range_entries m [] = []"
  by (simp add: range_entries_def map_filter_simps)

lemma range_entries_Cons:
  "range_entries m (k # ks) =
     (case m k of None \<Rightarrow> range_entries m ks | Some v \<Rightarrow> (k, v) # range_entries m ks)"
  by (simp add: range_entries_def map_filter_simps split: option.splits)

lemma range_entries_empty [simp]: "range_entries Map.empty ks = []"
  by (induction ks) (simp_all add: range_entries_Cons)

lemma range_entries_dom:
  "set ks \<subseteq> dom m \<Longrightarrow> range_entries m ks = map (\<lambda>k. (k, the (m k))) ks"
  by (induction ks) (auto simp: range_entries_Cons)

lemma range_entries_keys: "range_order m ks \<Longrightarrow> map fst (range_entries m ks) = ks"
  by (simp add: range_order_def range_entries_dom comp_def)

lemma range_entries_map_of: "range_order m ks \<Longrightarrow> map_of (range_entries m ks) = m"
proof (rule ext)
  fix k assume ro: "range_order m ks"
  then have eq: "range_entries m ks = map (\<lambda>k. (k, the (m k))) ks"
    by (simp add: range_order_def range_entries_dom)
  show "map_of (range_entries m ks) k = m k"
  proof (cases "k \<in> set ks")
    case True
    with ro have "k \<in> dom m" by (simp add: range_order_def)
    with True show ?thesis unfolding eq by (auto simp: map_of_map_restrict restrict_map_def)
  next
    case False
    with ro have "m k = None" by (auto simp: range_order_def)
    with False show ?thesis unfolding eq by (simp add: map_of_map_restrict restrict_map_def)
  qed
qed

lemma ResetOffset_coord [simp]: "coord (snd (ResetOffset env cl t p r s)) = coord s"
  by (simp add: ResetOffset_def Let_def split: option.splits)

lemma ResetOffset_each_coord [simp]: "coord (snd (ResetOffset_each env cl t es s)) = coord s"
proof (induction es arbitrary: s)
  case Nil then show ?case by simp
next
  case (Cons a es)
  obtain p r where a: "a = (p, r)" by (cases a)
  obtain e s' where ro: "ResetOffset env cl t p r s = (e, s')" by (cases "ResetOffset env cl t p r s")
  have "coord s' = coord s" using ResetOffset_coord[of env cl t p r s] ro by simp
  then show ?case using Cons.IH[of s'] a ro by (auto split: prod.splits)
qed

lemma MergeDLQ_range_each:
  "MergeDLQ_range env topic es errList s =
     (errList @ failures (fst (ResetOffset_each env (Cluster (DLQ topic)) (Name (DLQ topic)) es s)),
      snd (ResetOffset_each env (Cluster (DLQ topic)) (Name (DLQ topic)) es s))"
proof (induction es arbitrary: errList s)
  case Nil then show ?case by simp
next
  case (Cons a es)
  obtain p r where a: "a = (p, r)" by (cases a)
  show ?case unfolding a
    by (simp add: Cons.IH split: prod.splits option.splits)
qed


section \<open>Offset reset and dead-letter merge\<close>

lemma ResetOffset_each_keys:
  "map fst (fst (ResetOffset_each env cl t es s)) = map fst es"
proof (induction es arbitrary: s)
  case Nil then show ?case by simp
next
  case (Cons a es)
  obtain p r where a: "a = (p, r)" by (cases a)
  obtain e s' where ro: "ResetOffset env cl t p r s = (e, s')" by (cases "ResetOffset env cl t p r s")
  show ?case using Cons.IH[of s'] a ro by (auto split: prod.splits)
qed

lemma ResetOffset_each_registered:
  assumes "clusterConsumerMap (coord s) cl = Some cc"
  shows "trace (snd (ResetOffset_each env cl t es s)) =
           trace s @ map (\<lambda>((p, r), e). ClusterConsumer_ResetOffset cc t p r e)
                       (zip es (map snd (fst (ResetOffset_each env cl t es s))))"
  using assms
proof (induction es arbitrary: s)
  case Nil then show ?case by simp
next
  case (Cons a es)
  obtain p r where a: "a = (p, r)" by (cases a)
  obtain e s' where ro: "ResetOffset env cl t p r s = (e, s')" by (cases "ResetOffset env cl t p r s")
  have s': "s' = emit (ClusterConsumer_ResetOffset cc t p r e) s"
    using ro Cons.prems by (auto simp: ResetOffset_def Let_def)
  have "clusterConsumerMap (coord s') cl = Some cc" using s' Cons.prems by simp
  from Cons.IH[OF this] show ?case using a ro s' by (auto split: prod.splits)
qed

lemma ResetOffset_each_absent:
  assumes "clusterConsumerMap (coord s) cl = None"
  shows "ResetOffset_each env cl t es s =
           (map (\<lambda>(p, r). (p, Some (Err ''no cluster consumer found''))) es, s)"
  using assms by (induction es arbitrary: s) (auto simp: ResetOffset_def)

lemma failures_Nil_iff: "failures out = [] \<longleftrightarrow> (\<forall>x \<in> set out. snd x = None)"
  by (induction out rule: failures.induct) auto

lemma ex_ranges_order: "range_order ex_ranges [2, 0, 1]"
  by (auto simp: range_order_def ex_ranges_def)

lemma ex_ranges_entries: "range_entries ex_ranges [2, 0, 1] = [(2, 12), (0, 10), (1, 11)]"
  by (simp add: range_entries_Cons ex_ranges_def)

lemma ex_dlq: "Cluster (DLQ ex_topic) = ''dlq-cluster''" "Name (DLQ ex_topic) = ''unit-test-dlq''"
  by (simp_all add: ex_topic_def)

lemma ex_lookup:
  "clusterConsumerMap (coord (fresh ex_coord)) ''dlq-cluster'' = Some (ClusterConsumerPtr 3)"
  by (simp add: fresh_def ex_coord_def NewMultiClusterConsumer_def ex_consumers_def)

lemma ex_each:
  "fst (ResetOffset_each ex_env ''dlq-cluster'' ''unit-test-dlq'' [(2, 12), (0, 10), (1, 11)]
          (fresh ex_coord)) =
     [(2, Some (Err ''boom'')), (0, None), (1, Some (Err ''boom''))]"
  by (simp add: ResetOffset_def ex_lookup ex_env_def Let_def)

lemma Sprintf_partition_err_examples:
  "Sprintf_partition_err (- 1) (Err ''boom'') = ''partition=-1 err=boom''"
  "Sprintf_partition_err 2147483647 (Err ''x'') = ''partition=2147483647 err=x''"
  "Sprintf_partition_err 0 (Err '''') = ''partition=0 err=''"
  by (simp_all add: Sprintf_partition_err_def format_d_def digits.simps digit_def)

lemma ex_Sprintf:
  "Sprintf_partition_err 2 (Err ''boom'') = ''partition=2 err=boom''"
  "Sprintf_partition_err 1 (Err ''boom'') = ''partition=1 err=boom''"
  by (simp_all add: Sprintf_partition_err_def format_d_def digits.simps digit_def)

text \<open>
  C3. For a cluster name that is not a key of the cluster-consumer map, \<open>ResetOffset\<close>
  returns the lookup error and leaves the state, trace included, as it was: no consumer
  is invoked. For a registered name it returns what that consumer's \<open>ResetOffset\<close>
  returns, and that one call is all it does.
\<close>

theorem ResetOffset_lookup:
  "(clusterConsumerMap (coord s) cluster = None \<longrightarrow>
      ResetOffset env cluster topic p r s = (Some (Err ''no cluster consumer found''), s)) \<and>
   (\<forall>cc. clusterConsumerMap (coord s) cluster = Some cc \<longrightarrow>
      fst (ResetOffset env cluster topic p r s) = consumer_ResetOffset env (trace s) cc topic p r \<and>
      snd (ResetOffset env cluster topic p r s) =
        emit (ClusterConsumer_ResetOffset cc topic p r
                (consumer_ResetOffset env (trace s) cc topic p r)) s)"
  by (simp add: ResetOffset_def Let_def)

theorem ResetOffset_lookup_witness:
  "ResetOffset ex_env ''nowhere'' ''unit-test-dlq'' 1 (7::nat) (fresh ex_coord) =
     (Some (Err ''no cluster consumer found''), fresh ex_coord) \<and>
   fst (ResetOffset ex_env ''dlq-cluster'' ''unit-test-dlq'' 1 (7::nat) (fresh ex_coord)) =
     Some (Err ''boom'') \<and>
   trace (snd (ResetOffset ex_env ''dlq-cluster'' ''unit-test-dlq'' 1 (7::nat) (fresh ex_coord))) =
     [ClusterConsumer_ResetOffset (ClusterConsumerPtr 3) ''unit-test-dlq'' 1 7 (Some (Err ''boom''))]"
proof -
  have a: "clusterConsumerMap (coord (fresh ex_coord :: nat state)) ''nowhere'' = None"
    by (simp add: fresh_def ex_coord_def NewMultiClusterConsumer_def ex_consumers_def)
  have b: "clusterConsumerMap (coord (fresh ex_coord :: nat state)) ''dlq-cluster'' =
             Some (ClusterConsumerPtr 3)"
    by (simp add: fresh_def ex_coord_def NewMultiClusterConsumer_def ex_consumers_def)
  have c: "consumer_ResetOffset ex_env (trace (fresh ex_coord)) (ClusterConsumerPtr 3)
             ''unit-test-dlq'' 1 (7::nat) = Some (Err ''boom'')"
    by (simp add: ex_env_def)
  have d: "trace (fresh ex_coord :: nat state) = []" by (simp add: fresh_def)
  show ?thesis
    using ResetOffset_lookup [of "fresh ex_coord" "''nowhere''" ex_env "''unit-test-dlq''" 1 7]
      ResetOffset_lookup [of "fresh ex_coord" "''dlq-cluster''" ex_env "''unit-test-dlq''" 1 7]
      a b c d
    by simp
qed

text \<open>
  C10. \<open>ResetOffset\<close> and \<open>MergeDLQ\<close> leave the coordinator's own state as it was,
  whatever they return: the group name, the topics, both maps, both channels and the
  lifecycle guard.
\<close>

theorem ResetOffset_MergeDLQ_frame:
  "coord (snd (ResetOffset env cluster topic p r s)) = coord s \<and>
   coord (snd (MergeDLQ env ct offsetRanges ks s)) = coord s"
  by (simp add: MergeDLQ_def MergeDLQ_range_each split: prod.splits)


text \<open>
  C4. \<open>MergeDLQ\<close> makes one reset attempt for every partition of the map, in the order
  of its loop, whatever the earlier attempts returned: its final state is the one left
  by these attempts, and with the dead-letter cluster registered its own trace gains one
  consumer call per partition, each with the outcome recorded; with the cluster not
  registered every attempt fails at the lookup. It returns nil exactly when no attempt
  failed, so also for the empty map; otherwise it returns one error whose text is
  \<open>DLQ merge failed for\<close> followed by the entries \<open>partition=<n> err=<e>\<close> of the
  failed attempts, joined with commas.
\<close>

theorem MergeDLQ_aggregate:
  assumes "range_order offsetRanges ks"
    and "es = range_entries offsetRanges ks"
    and "out = fst (ResetOffset_each env (Cluster (DLQ topic)) (Name (DLQ topic)) es s)"
  shows "map fst out = ks \<and> map_of es = offsetRanges \<and>
         MergeDLQ env topic offsetRanges ks s =
           (if failures out = [] then None
            else Some (Err (''DLQ merge failed for '' @ Join (failures out) '','')),
            snd (ResetOffset_each env (Cluster (DLQ topic)) (Name (DLQ topic)) es s)) \<and>
         (\<forall>cc. clusterConsumerMap (coord s) (Cluster (DLQ topic)) = Some cc \<longrightarrow>
            trace (snd (MergeDLQ env topic offsetRanges ks s)) =
              trace s @
              map (\<lambda>((p, r), e). ClusterConsumer_ResetOffset cc (Name (DLQ topic)) p r e)
                (zip es (map snd out))) \<and>
         (clusterConsumerMap (coord s) (Cluster (DLQ topic)) = None \<longrightarrow>
            out = map (\<lambda>(p, r). (p, Some (Err ''no cluster consumer found''))) es \<and>
            snd (MergeDLQ env topic offsetRanges ks s) = s) \<and>
         (fst (MergeDLQ env topic offsetRanges ks s) = None \<longleftrightarrow> (\<forall>x \<in> set out. snd x = None)) \<and>
         fst (MergeDLQ env topic offsetRanges ks s) =
           (if failures out = [] then None
            else Some (Err (''DLQ merge failed for '' @ Join (failures out) '',''))) \<and>
         (offsetRanges = Map.empty \<longrightarrow> MergeDLQ env topic offsetRanges ks s = (None, s))"
proof -
  let ?each = "ResetOffset_each env (Cluster (DLQ topic)) (Name (DLQ topic)) es s"
  have keys: "map fst out = ks"
    using assms by (simp add: ResetOffset_each_keys range_entries_keys)
  have mp: "map_of es = offsetRanges"
    using assms(1,2) by (simp add: range_entries_map_of)
  have whole: "MergeDLQ env topic offsetRanges ks s =
           (if failures out = [] then None
            else Some (Err (''DLQ merge failed for '' @ Join (failures out) '','')),
            snd ?each)"
    using assms(2,3) by (simp add: MergeDLQ_def MergeDLQ_range_each)
  have res: "fst (MergeDLQ env topic offsetRanges ks s) =
           (if failures out = [] then None
            else Some (Err (''DLQ merge failed for '' @ Join (failures out) '','')))"
    unfolding whole by simp
  have st: "snd (MergeDLQ env topic offsetRanges ks s) = snd ?each"
    unfolding whole by simp
  have reg: "trace (snd (MergeDLQ env topic offsetRanges ks s)) =
              trace s @
              map (\<lambda>((p, r), e). ClusterConsumer_ResetOffset cc (Name (DLQ topic)) p r e)
                (zip es (map snd out))"
    if "clusterConsumerMap (coord s) (Cluster (DLQ topic)) = Some cc" for cc
    unfolding st assms(3) by (rule ResetOffset_each_registered [OF that])
  have abs: "out = map (\<lambda>(p, r). (p, Some (Err ''no cluster consumer found''))) es \<and>
            snd (MergeDLQ env topic offsetRanges ks s) = s"
    if "clusterConsumerMap (coord s) (Cluster (DLQ topic)) = None"
    unfolding st assms(3) by (simp add: ResetOffset_each_absent [OF that])
  have nil: "fst (MergeDLQ env topic offsetRanges ks s) = None \<longleftrightarrow> (\<forall>x \<in> set out. snd x = None)"
    unfolding res by (simp add: failures_Nil_iff)
  have empty: "offsetRanges = Map.empty \<longrightarrow> MergeDLQ env topic offsetRanges ks s = (None, s)"
    by (simp add: MergeDLQ_def)
  show ?thesis
    using keys mp whole reg abs nil res empty by blast
qed

theorem MergeDLQ_aggregate_witness:
  "range_order ex_ranges [2, 0, 1] \<and>
   MergeDLQ ex_env ex_topic ex_ranges [2, 0, 1] (fresh ex_coord) =
     (Some (Err ''DLQ merge failed for partition=2 err=boom,partition=1 err=boom''),
      \<lparr>coord = ex_coord,
       trace =
         [ClusterConsumer_ResetOffset (ClusterConsumerPtr 3) ''unit-test-dlq'' 2 12
            (Some (Err ''boom'')),
          ClusterConsumer_ResetOffset (ClusterConsumerPtr 3) ''unit-test-dlq'' 0 10 None,
          ClusterConsumer_ResetOffset (ClusterConsumerPtr 3) ''unit-test-dlq'' 1 11
            (Some (Err ''boom''))]\<rparr>) \<and>
   MergeDLQ ex_env ex_topic Map.empty [] (fresh ex_coord) = (None, fresh ex_coord)"
proof -
  let ?es = "[(2, 12), (0, 10), (1, 11)] :: (int32 \<times> nat) list"
  let ?out = "[(2, Some (Err ''boom'')), (0, None), (1, Some (Err ''boom''))]
                :: (int32 \<times> error option) list"
  let ?m = "MergeDLQ ex_env ex_topic ex_ranges [2, 0, 1] (fresh ex_coord)"
  have es: "?es = range_entries ex_ranges [2, 0, 1]"
    by (simp only: ex_ranges_entries)
  have out: "?out = fst (ResetOffset_each ex_env (Cluster (DLQ ex_topic)) (Name (DLQ ex_topic))
                           ?es (fresh ex_coord))"
    by (simp only: ex_dlq ex_each)
  note th = MergeDLQ_aggregate [OF ex_ranges_order es out]
  have lk: "clusterConsumerMap (coord (fresh ex_coord :: nat state)) (Cluster (DLQ ex_topic)) =
              Some (ClusterConsumerPtr 3)"
    by (simp add: ex_dlq ex_lookup)
  have r: "fst ?m = (if failures ?out = [] then None
            else Some (Err (''DLQ merge failed for '' @ Join (failures ?out) '','')))"
    using th by (elim conjE)
  have "\<forall>cc. clusterConsumerMap (coord (fresh ex_coord :: nat state)) (Cluster (DLQ ex_topic)) = Some cc \<longrightarrow>
          trace (snd ?m) = trace (fresh ex_coord) @
              map (\<lambda>((p, r), e). ClusterConsumer_ResetOffset cc (Name (DLQ ex_topic)) p r e)
                (zip ?es (map snd ?out))"
    using th by (elim conjE)
  then have "clusterConsumerMap (coord (fresh ex_coord :: nat state)) (Cluster (DLQ ex_topic)) =
               Some (ClusterConsumerPtr 3) \<longrightarrow>
          trace (snd ?m) = trace (fresh ex_coord) @
              map (\<lambda>((p, r), e). ClusterConsumer_ResetOffset (ClusterConsumerPtr 3)
                                   (Name (DLQ ex_topic)) p r e)
                (zip ?es (map snd ?out))"
    by (rule spec)
  then have t: "trace (snd ?m) = trace (fresh ex_coord) @
              map (\<lambda>((p, r), e). ClusterConsumer_ResetOffset (ClusterConsumerPtr 3)
                                   (Name (DLQ ex_topic)) p r e)
                (zip ?es (map snd ?out))"
    using lk by (rule mp)
  have c: "coord (snd ?m) = ex_coord"
    by (simp add: MergeDLQ_def MergeDLQ_range_each fresh_def)
  have r': "fst ?m = Some (Err ''DLQ merge failed for partition=2 err=boom,partition=1 err=boom'')"
    unfolding r by (simp add: ex_Sprintf)
  have t': "trace (snd ?m) =
         [ClusterConsumer_ResetOffset (ClusterConsumerPtr 3) ''unit-test-dlq'' 2 12
            (Some (Err ''boom'')),
          ClusterConsumer_ResetOffset (ClusterConsumerPtr 3) ''unit-test-dlq'' 0 10 None,
          ClusterConsumer_ResetOffset (ClusterConsumerPtr 3) ''unit-test-dlq'' 1 11
            (Some (Err ''boom''))]"
    unfolding t by (simp add: ex_dlq fresh_def)
  have whole: "?m =
     (Some (Err ''DLQ merge failed for partition=2 err=boom,partition=1 err=boom''),
      \<lparr>coord = ex_coord,
       trace =
         [ClusterConsumer_ResetOffset (ClusterConsumerPtr 3) ''unit-test-dlq'' 2 12
            (Some (Err ''boom'')),
          ClusterConsumer_ResetOffset (ClusterConsumerPtr 3) ''unit-test-dlq'' 0 10 None,
          ClusterConsumer_ResetOffset (ClusterConsumerPtr 3) ''unit-test-dlq'' 1 11
            (Some (Err ''boom''))]\<rparr>)"
    using r' t' c by (cases ?m) simp
  have e: "range_order (Map.empty :: int32 \<rightharpoonup> nat) []" by (simp add: range_order_def)
  have e2: "[] = range_entries (Map.empty :: int32 \<rightharpoonup> nat) []" by simp
  have "(Map.empty :: int32 \<rightharpoonup> nat) = Map.empty \<longrightarrow>
          MergeDLQ ex_env ex_topic Map.empty [] (fresh ex_coord) = (None, fresh ex_coord)"
    using MergeDLQ_aggregate [OF e e2 refl, of ex_env ex_topic "fresh ex_coord"] by (elim conjE)
  then have emp: "MergeDLQ ex_env ex_topic Map.empty [] (fresh ex_coord) = (None, fresh ex_coord)"
    by simp
  show ?thesis
    by (intro conjI) (fact ex_ranges_order whole emp)+
qed


text \<open>
  C5. Every entry of the input map is visited once, with its own offset range, and
  \<open>MergeDLQ\<close> does what one call \<open>ResetOffset(topic.DLQ.Cluster, topic.DLQ.Name,
  partition, offsetRange)\<close> per entry does. When the dead-letter cluster is registered,
  its consumer receives exactly these calls, with the dead-letter topic name; when it is
  not, no consumer is called.
\<close>

theorem MergeDLQ_resets_dlq:
  assumes "range_order offsetRanges ks"
    and "es = range_entries offsetRanges ks"
    and "s' = snd (MergeDLQ env topic offsetRanges ks s)"
    and "out = fst (ResetOffset_each env (Cluster (DLQ topic)) (Name (DLQ topic)) es s)"
  shows "map_of es = offsetRanges \<and> map fst es = ks \<and>
         s' = snd (ResetOffset_each env (Cluster (DLQ topic)) (Name (DLQ topic)) es s) \<and>
         (\<forall>cc. clusterConsumerMap (coord s) (Cluster (DLQ topic)) = Some cc \<longrightarrow>
            trace s' = trace s @
              map (\<lambda>((p, r), e). ClusterConsumer_ResetOffset cc (Name (DLQ topic)) p r e)
                (zip es (map snd out))) \<and>
         (clusterConsumerMap (coord s) (Cluster (DLQ topic)) = None \<longrightarrow> trace s' = trace s)"
proof -
  have a: "map_of es = offsetRanges" "map fst es = ks"
    using assms(1,2) by (simp_all add: range_entries_map_of range_entries_keys)
  have b: "s' = snd (ResetOffset_each env (Cluster (DLQ topic)) (Name (DLQ topic)) es s)"
    using assms(2,3) by (simp add: MergeDLQ_def MergeDLQ_range_each)
  have c: "trace s' = trace s @
              map (\<lambda>((p, r), e). ClusterConsumer_ResetOffset cc (Name (DLQ topic)) p r e)
                (zip es (map snd out))"
    if "clusterConsumerMap (coord s) (Cluster (DLQ topic)) = Some cc" for cc
    unfolding b assms(4) by (rule ResetOffset_each_registered [OF that])
  have d: "trace s' = trace s" if "clusterConsumerMap (coord s) (Cluster (DLQ topic)) = None"
    unfolding b by (simp add: ResetOffset_each_absent [OF that])
  from a b c d show ?thesis by blast
qed

theorem MergeDLQ_resets_dlq_witness:
  "range_order ex_ranges [2, 0, 1] \<and>
   trace (snd (MergeDLQ ex_env ex_topic ex_ranges [2, 0, 1] (fresh ex_coord))) =
     [ClusterConsumer_ResetOffset (ClusterConsumerPtr 3) ''unit-test-dlq'' 2 12 (Some (Err ''boom'')),
      ClusterConsumer_ResetOffset (ClusterConsumerPtr 3) ''unit-test-dlq'' 0 10 None,
      ClusterConsumer_ResetOffset (ClusterConsumerPtr 3) ''unit-test-dlq'' 1 11 (Some (Err ''boom''))]"
proof -
  have es: "[(2, 12), (0, 10), (1, 11)] = range_entries ex_ranges [2, 0, 1]"
    by (simp only: ex_ranges_entries)
  have out: "[(2, Some (Err ''boom'')), (0, None), (1, Some (Err ''boom''))] =
      fst (ResetOffset_each ex_env (Cluster (DLQ ex_topic)) (Name (DLQ ex_topic))
             [(2, 12), (0, 10), (1, 11)] (fresh ex_coord))"
    by (simp only: ex_dlq ex_each)
  have tr: "trace (fresh ex_coord :: nat state) = []" by (simp add: fresh_def)
  have lk: "clusterConsumerMap (coord (fresh ex_coord :: nat state)) (Cluster (DLQ ex_topic)) =
              Some (ClusterConsumerPtr 3)"
    by (simp add: ex_dlq ex_lookup)
  from MergeDLQ_resets_dlq [OF ex_ranges_order es refl out]
  have "\<forall>cc. clusterConsumerMap (coord (fresh ex_coord :: nat state)) (Cluster (DLQ ex_topic)) = Some cc \<longrightarrow>
          trace (snd (MergeDLQ ex_env ex_topic ex_ranges [2, 0, 1] (fresh ex_coord))) =
            trace (fresh ex_coord) @
              map (\<lambda>((p, r), e). ClusterConsumer_ResetOffset cc (Name (DLQ ex_topic)) p r e)
                (zip [(2, 12), (0, 10), (1, 11)]
                   (map snd [(2::int32, Some (Err ''boom'')), (0, None), (1, Some (Err ''boom''))]))"
    by (elim conjE)
  with lk have "trace (snd (MergeDLQ ex_env ex_topic ex_ranges [2, 0, 1] (fresh ex_coord))) =
            trace (fresh ex_coord) @
              map (\<lambda>((p, r), e). ClusterConsumer_ResetOffset (ClusterConsumerPtr 3) (Name (DLQ ex_topic)) p r e)
                (zip [(2, 12), (0, 10), (1, 11)]
                   (map snd [(2::int32, Some (Err ''boom'')), (0, None), (1, Some (Err ''boom''))]))"
    by blast
  then show ?thesis using ex_ranges_order by (simp add: tr ex_dlq)
qed

section \<open>Start and Stop\<close>


lemma coord_set_phase [simp]:
  "coord (set_phase p s) = (coord s)\<lparr>lifecycle := (lifecycle (coord s))\<lparr>phase := p\<rparr>\<rparr>"
  by (simp add: set_phase_def)

lemma trace_set_phase [simp]: "trace (set_phase p s) = trace s"
  by (simp add: set_phase_def)

lemma Stop_range_coord [simp]: "coord (Stop_range es s) = coord s"
  by (induction es arbitrary: s) auto

lemma Stop_range_trace:
  "trace (Stop_range es s) = trace s @ map (\<lambda>(k, c). ClusterConsumer_Stop c) es"
  by (induction es arbitrary: s) auto

lemma Close_range_coord [simp]: "coord (Close_range env es s) = coord s"
  by (induction es arbitrary: s) auto

lemma Close_range_trace:
  "\<exists>rs. length rs = length es \<and>
        trace (Close_range env es s) = trace s @ map (\<lambda>((k, c), r). Client_Close c r) (zip es rs)"
proof (induction es arbitrary: s)
  case Nil
  then show ?case by simp
next
  case (Cons a es)
  obtain k c where a: "a = (k, c)" by (cases a)
  let ?r = "client_Close env (trace s) c"
  from Cons.IH [of "emit (Client_Close c ?r) s"]
  obtain rs where rs: "length rs = length es"
    "trace (Close_range env es (emit (Client_Close c ?r) s)) =
       trace (emit (Client_Close c ?r) s) @ map (\<lambda>((k, c), r). Client_Close c r) (zip es rs)"
    by blast
  have "length (?r # rs) = length (a # es)" using rs by simp
  moreover have "trace (Close_range env (a # es) s) =
      trace s @ map (\<lambda>((k, c), r). Client_Close c r) (zip (a # es) (?r # rs))"
    using rs a by simp
  ultimately show ?case by blast
qed

lemma Start_range_coord [simp]: "coord (snd (Start_range env es s)) = coord s"
  by (induction es arbitrary: s) (auto simp: Let_def split: option.splits)

lemma Start_range_None:
  "Start_range env es s = (None, s') \<Longrightarrow>
     trace s' = trace s @ map (\<lambda>(k, c). ClusterConsumer_Start c None) es"
  by (induction es arbitrary: s) (auto simp: Let_def split: option.splits)

lemma Start_range_Some:
  "Start_range env es s = (Some e, s') \<Longrightarrow>
     \<exists>n<length es.
        trace s' = trace s @ map (\<lambda>(k, c). ClusterConsumer_Start c None) (take n es) @
          [ClusterConsumer_Start (snd (es ! n)) (Some e),
           logger_Error ''multicluster consumer start error''
             [zap_Error e, zap_String ''cluster'' (fst (es ! n))]]"
proof (induction es arbitrary: s)
  case Nil
  then show ?case by simp
next
  case (Cons a es)
  obtain k c where a: "a = (k, c)" by (cases a)
  show ?case
  proof (cases "consumer_Start env (trace s) c")
    case None
    with Cons.prems a
    have "Start_range env es (emit (ClusterConsumer_Start c None) s) = (Some e, s')"
      by (simp add: Let_def)
    from Cons.IH [OF this] obtain n where n: "n < length es"
      "trace s' = trace (emit (ClusterConsumer_Start c None) s) @
          map (\<lambda>(k, c). ClusterConsumer_Start c None) (take n es) @
          [ClusterConsumer_Start (snd (es ! n)) (Some e),
           logger_Error ''multicluster consumer start error''
             [zap_Error e, zap_String ''cluster'' (fst (es ! n))]]"
      by blast
    have "Suc n < length (a # es)" using n by simp
    moreover have "trace s' = trace s @ map (\<lambda>(k, c). ClusterConsumer_Start c None) (take (Suc n) (a # es)) @
          [ClusterConsumer_Start (snd ((a # es) ! Suc n)) (Some e),
           logger_Error ''multicluster consumer start error''
             [zap_Error e, zap_String ''cluster'' (fst ((a # es) ! Suc n))]]"
      using n a by simp
    ultimately show ?thesis by blast
  next
    case (Some e')
    with Cons.prems a have "e' = e" and
      "s' = emit (logger_Error ''multicluster consumer start error''
                      [zap_Error e, zap_String ''cluster'' k]) (emit (ClusterConsumer_Start c (Some e)) s)"
      by (auto simp: Let_def)
    then have "trace s' = trace s @ map (\<lambda>(k, c). ClusterConsumer_Start c None) (take 0 (a # es)) @
          [ClusterConsumer_Start (snd ((a # es) ! 0)) (Some e),
           logger_Error ''multicluster consumer start error''
             [zap_Error e, zap_String ''cluster'' (fst ((a # es) ! 0))]]"
      using a by simp
    moreover have "0 < length (a # es)" by simp
    ultimately show ?thesis by blast
  qed
qed

lemma Stop_action_Open:
  assumes "doneC (coord s) = Open"
  shows "\<exists>s' rs. Stop_action env ks cks s = Inr s' \<and>
           coord s' = (coord s)\<lparr>doneC := Closed\<rparr> \<and>
           length rs = length (range_entries (clusterToSaramaClientMap (coord s)) cks) \<and>
           trace s' = trace s @
             map (\<lambda>(k, c). ClusterConsumer_Stop c) (range_entries (clusterConsumerMap (coord s)) ks) @
             map (\<lambda>((k, c), r). Client_Close c r)
               (zip (range_entries (clusterToSaramaClientMap (coord s)) cks) rs) @
             [close_doneC,
              logger_Info ''multicluster consumer stopped''
                [zap_String ''groupName'' (groupName (coord s)),
                 zap_Array ''topicList'' (topics (coord s))],
              Counter_Inc KafkaConsumerStopped]"
proof -
  let ?es = "range_entries (clusterConsumerMap (coord s)) ks"
  let ?cs = "range_entries (clusterToSaramaClientMap (coord s)) cks"
  let ?s1 = "Stop_range ?es s"
  let ?s2 = "Close_range env ?cs ?s1"
  obtain rs where rs: "length rs = length ?cs"
    "trace ?s2 = trace ?s1 @ map (\<lambda>((k, c), r). Client_Close c r) (zip ?cs rs)"
    using Close_range_trace [of ?cs env ?s1] by blast
  have c2: "coord ?s2 = coord s" by simp
  let ?s3 = "emit close_doneC (?s2\<lparr>coord := (coord ?s2)\<lparr>doneC := Closed\<rparr>\<rparr>)"
  have cd: "close_done ?s2 = Inr ?s3"
    using assms c2 by (simp add: close_done_def)
  let ?s4 = "emit (Counter_Inc KafkaConsumerStopped)
                   (emit (logger_Info ''multicluster consumer stopped''
                            [zap_String ''groupName'' (groupName (coord ?s3)),
                             zap_Array ''topicList'' (topics (coord ?s3))]) ?s3)"
  have sa: "Stop_action env ks cks s = Inr ?s4"
    unfolding Stop_action_def Let_def using cd by simp
  have co: "coord ?s4 = (coord s)\<lparr>doneC := Closed\<rparr>" by simp
  have tr: "trace ?s4 = trace s @ map (\<lambda>(k, c). ClusterConsumer_Stop c) ?es @
             map (\<lambda>((k, c), r). Client_Close c r) (zip ?cs rs) @
             [close_doneC,
              logger_Info ''multicluster consumer stopped''
                [zap_String ''groupName'' (groupName (coord s)),
                 zap_Array ''topicList'' (topics (coord s))],
              Counter_Inc KafkaConsumerStopped]"
    using rs(2) by (simp add: Stop_range_trace)
  from sa co rs(1) tr show ?thesis by blast
qed


lemma starts_append [simp]: "starts (xs @ ys) = starts xs @ starts ys"
  by (induction xs rule: starts.induct) auto

lemma starts_stops [simp]: "starts (map (\<lambda>(k, c). ClusterConsumer_Stop c) es) = []"
  by (induction es) auto

lemma starts_closes [simp]: "starts (map (\<lambda>((k, c), r). Client_Close c r) zs) = []"
  by (induction zs) auto

lemma starts_started [simp]:
  "starts (map (\<lambda>(k, c). ClusterConsumer_Start c None) es) = map (\<lambda>(k, c). (c, None)) es"
  by (induction es) auto

lemma count_stops [simp]: "count_list (map (\<lambda>(k, c). ClusterConsumer_Stop c) es) close_doneC = 0"
  by (induction es) auto

lemma count_closes [simp]: "count_list (map (\<lambda>((k, c), r). Client_Close c r) zs) close_doneC = 0"
  by (induction zs) auto

lemma count_started [simp]:
  "count_list (map (\<lambda>(k, c). ClusterConsumer_Start c None) es) close_doneC = 0"
  by (induction es) auto

lemma same_config_refl [simp]: "same_config c c"
  by (simp add: same_config_def)

lemma same_config_trans: "same_config a b \<Longrightarrow> same_config b c \<Longrightarrow> same_config a c"
  by (simp add: same_config_def)

lemma Stop_skip:
  "phase (lifecycle (coord s)) = NotStarted \<or> phase (lifecycle (coord s)) = Stopped
     \<Longrightarrow> Stop env ks cks s = Inr s"
  by (auto simp: Stop_def RunLifecycle_Stop_def)

lemma Stop_run:
  assumes "phase (lifecycle (coord s)) \<noteq> NotStarted" "phase (lifecycle (coord s)) \<noteq> Stopped"
    and "doneC (coord s) = Open"
  shows "\<exists>s' rs. Stop env ks cks s = Inr s' \<and>
           coord s' = (coord s)\<lparr>doneC := Closed,
                                lifecycle := (lifecycle (coord s))\<lparr>phase := Stopped\<rparr>\<rparr> \<and>
           length rs = length (range_entries (clusterToSaramaClientMap (coord s)) cks) \<and>
           trace s' = trace s @
             map (\<lambda>(k, c). ClusterConsumer_Stop c) (range_entries (clusterConsumerMap (coord s)) ks) @
             map (\<lambda>((k, c), r). Client_Close c r)
               (zip (range_entries (clusterToSaramaClientMap (coord s)) cks) rs) @
             [close_doneC,
              logger_Info ''multicluster consumer stopped''
                [zap_String ''groupName'' (groupName (coord s)),
                 zap_Array ''topicList'' (topics (coord s))],
              Counter_Inc KafkaConsumerStopped]"
proof -
  have "doneC (coord (set_phase Stopping s)) = Open" using assms(3) by simp
  from Stop_action_Open [OF this, of env ks cks]
  obtain s1 rs where s1: "Stop_action env ks cks (set_phase Stopping s) = Inr s1"
    "coord s1 = (coord (set_phase Stopping s))\<lparr>doneC := Closed\<rparr>"
    "length rs = length (range_entries (clusterToSaramaClientMap (coord (set_phase Stopping s))) cks)"
    "trace s1 = trace (set_phase Stopping s) @
             map (\<lambda>(k, c). ClusterConsumer_Stop c)
               (range_entries (clusterConsumerMap (coord (set_phase Stopping s))) ks) @
             map (\<lambda>((k, c), r). Client_Close c r)
               (zip (range_entries (clusterToSaramaClientMap (coord (set_phase Stopping s))) cks) rs) @
             [close_doneC,
              logger_Info ''multicluster consumer stopped''
                [zap_String ''groupName'' (groupName (coord (set_phase Stopping s))),
                 zap_Array ''topicList'' (topics (coord (set_phase Stopping s)))],
              Counter_Inc KafkaConsumerStopped]"
    by blast
  have st: "Stop env ks cks s = Inr (set_phase Stopped s1)"
    using assms(1,2) s1(1) by (simp add: Stop_def RunLifecycle_Stop_def)
  have co: "coord (set_phase Stopped s1) =
      (coord s)\<lparr>doneC := Closed, lifecycle := (lifecycle (coord s))\<lparr>phase := Stopped\<rparr>\<rparr>"
    using s1(2) by simp
  have le: "length rs = length (range_entries (clusterToSaramaClientMap (coord s)) cks)"
    using s1(3) by simp
  have tr: "trace (set_phase Stopped s1) = trace s @
             map (\<lambda>(k, c). ClusterConsumer_Stop c) (range_entries (clusterConsumerMap (coord s)) ks) @
             map (\<lambda>((k, c), r). Client_Close c r)
               (zip (range_entries (clusterToSaramaClientMap (coord s)) cks) rs) @
             [close_doneC,
              logger_Info ''multicluster consumer stopped''
                [zap_String ''groupName'' (groupName (coord s)),
                 zap_Array ''topicList'' (topics (coord s))],
              Counter_Inc KafkaConsumerStopped]"
    using s1(4) by simp
  from st co le tr show ?thesis by blast
qed

text \<open>What a call of Stop gives from a state that satisfies the invariant.\<close>

lemma Stop_outcome:
  assumes "guard_inv s"
  shows "\<exists>s' evs. Stop env ks cks s = Inr s' \<and> guard_inv s' \<and> same_config (coord s) (coord s') \<and>
           trace s' = trace s @ evs \<and> starts evs = [] \<and>
           count_list evs close_doneC = (if doneC (coord s') = doneC (coord s) then 0 else 1) \<and>
           (doneC (coord s) = Closed \<longrightarrow> doneC (coord s') = Closed) \<and>
           (phase (lifecycle (coord s)) = NotStarted \<longrightarrow> s' = s) \<and>
           (phase (lifecycle (coord s)) \<noteq> NotStarted \<longrightarrow>
              phase (lifecycle (coord s')) = Stopped) \<and>
           (phase (lifecycle (coord s)) \<noteq> NotStarted \<and> phase (lifecycle (coord s)) \<noteq> Stopped \<longrightarrow>
              (\<forall>x \<in> set (range_entries (clusterConsumerMap (coord s)) ks).
                 ClusterConsumer_Stop (snd x) \<in> set evs))"
proof (cases "phase (lifecycle (coord s)) = NotStarted \<or> phase (lifecycle (coord s)) = Stopped")
  case True
  then have "Stop env ks cks s = Inr s" by (rule Stop_skip)
  moreover have "trace s = trace s @ []" by simp
  ultimately show ?thesis using assms True by (intro exI [of _ s] exI [of _ "[]"]) auto
next
  case False
  then have ph: "phase (lifecycle (coord s)) \<noteq> NotStarted" "phase (lifecycle (coord s)) \<noteq> Stopped"
    by auto
  with assms have op: "doneC (coord s) = Open"
    by (cases "doneC (coord s)") (auto simp: guard_inv_def)
  from Stop_run [OF ph op, of env ks cks]
  obtain s' rs where s': "Stop env ks cks s = Inr s'"
    "coord s' = (coord s)\<lparr>doneC := Closed, lifecycle := (lifecycle (coord s))\<lparr>phase := Stopped\<rparr>\<rparr>"
    "trace s' = trace s @
             map (\<lambda>(k, c). ClusterConsumer_Stop c) (range_entries (clusterConsumerMap (coord s)) ks) @
             map (\<lambda>((k, c), r). Client_Close c r)
               (zip (range_entries (clusterToSaramaClientMap (coord s)) cks) rs) @
             [close_doneC,
              logger_Info ''multicluster consumer stopped''
                [zap_String ''groupName'' (groupName (coord s)),
                 zap_Array ''topicList'' (topics (coord s))],
              Counter_Inc KafkaConsumerStopped]"
    by blast
  let ?evs = "map (\<lambda>(k, c). ClusterConsumer_Stop c) (range_entries (clusterConsumerMap (coord s)) ks) @
             map (\<lambda>((k, c), r). Client_Close c r)
               (zip (range_entries (clusterToSaramaClientMap (coord s)) cks) rs) @
             [close_doneC,
              logger_Info ''multicluster consumer stopped''
                [zap_String ''groupName'' (groupName (coord s)),
                 zap_Array ''topicList'' (topics (coord s))],
              Counter_Inc KafkaConsumerStopped]"
  have cnt: "count_list ?evs close_doneC = (if doneC (coord s') = doneC (coord s) then 0 else 1)"
    using s'(2) op by simp
  have gi: "guard_inv s'"
    using s'(2) by (simp add: guard_inv_def)
  have sc: "same_config (coord s) (coord s')" using s'(2) by (simp add: same_config_def)
  have st: "starts ?evs = []" by simp
  have all: "\<forall>x \<in> set (range_entries (clusterConsumerMap (coord s)) ks).
                 ClusterConsumer_Stop (snd x) \<in> set ?evs"
    by force
  have p': "phase (lifecycle (coord s')) = Stopped" using s'(2) by simp
  have mo: "doneC (coord s') = Closed" using s'(2) by simp
  show ?thesis
    using s'(1) gi sc s'(3) st cnt all p' ph mo by (intro exI [of _ s'] exI [of _ ?evs]) simp
qed


lemma RunLifecycle_Start_past:
  "phase (lifecycle (coord s)) \<noteq> NotStarted \<Longrightarrow>
     RunLifecycle_Start action s = (Some errStartedTwice, s)"
  by (simp add: RunLifecycle_Start_def)

lemma guard_inv_Open:
  "guard_inv s \<Longrightarrow> phase (lifecycle (coord s)) \<noteq> Stopped \<Longrightarrow> doneC (coord s) = Open"
  by (cases "doneC (coord s)") (auto simp: guard_inv_def)

lemma Start_first_ok:
  assumes "guard_inv s" "phase (lifecycle (coord s)) = NotStarted"
    and "Start_range env (range_entries (clusterConsumerMap (coord s)) ks) (set_phase Starting s)
           = (None, s1)"
  shows "Start env ks sks cks s =
           Inr (None,
                emit (Counter_Inc KafkaConsumerStarted)
                  (emit (logger_Info ''multicluster consumer started''
                           [zap_String ''groupName'' (groupName (coord s)),
                            zap_Array ''topicList'' (topics (coord s))])
                     (set_phase Running s1)))"
    and "coord s1 = coord (set_phase Starting s)"
    and "trace s1 = trace s @ map (\<lambda>(k, c). ClusterConsumer_Start c None)
                                (range_entries (clusterConsumerMap (coord s)) ks)"
proof -
  show c1: "coord s1 = coord (set_phase Starting s)"
    using Start_range_coord [of env "range_entries (clusterConsumerMap (coord s)) ks"
        "set_phase Starting s"] assms(3) by simp
  show "trace s1 = trace s @ map (\<lambda>(k, c). ClusterConsumer_Start c None)
                                (range_entries (clusterConsumerMap (coord s)) ks)"
    using Start_range_None [OF assms(3)] by simp
  have "RunLifecycle_Start (Start_action env ks) s = (None, set_phase Running s1)"
    using assms(2,3) by (simp add: RunLifecycle_Start_def Start_action_def)
  then show "Start env ks sks cks s =
           Inr (None,
                emit (Counter_Inc KafkaConsumerStarted)
                  (emit (logger_Info ''multicluster consumer started''
                           [zap_String ''groupName'' (groupName (coord s)),
                            zap_Array ''topicList'' (topics (coord s))])
                     (set_phase Running s1)))"
    using c1 by (simp add: Start_def)
qed

lemma Start_first_fail:
  assumes "guard_inv s" "phase (lifecycle (coord s)) = NotStarted"
    and "Start_range env (range_entries (clusterConsumerMap (coord s)) ks) (set_phase Starting s)
           = (Some e, s1)"
  shows "\<exists>s' evs n. Start env ks sks cks s = Inr (Some e, s') \<and> guard_inv s' \<and>
           same_config (coord s) (coord s') \<and> phase (lifecycle (coord s')) = Stopped \<and>
           trace s' = trace s @ evs \<and> count_list evs close_doneC = 1 \<and>
           doneC (coord s) = Open \<and> doneC (coord s') = Closed \<and>
           n < length (range_entries (clusterConsumerMap (coord s)) ks) \<and>
           starts evs = map (\<lambda>(k, c). (c, None))
                          (take n (range_entries (clusterConsumerMap (coord s)) ks)) @
                        [(snd (range_entries (clusterConsumerMap (coord s)) ks ! n), Some e)] \<and>
           (\<forall>x \<in> set (range_entries (clusterConsumerMap (coord s)) sks).
              ClusterConsumer_Stop (snd x) \<in> set evs)"
proof -
  let ?es = "range_entries (clusterConsumerMap (coord s)) ks"
  have c1: "coord s1 = coord (set_phase Starting s)"
    using Start_range_coord [of env ?es "set_phase Starting s"] assms(3) by simp
  from Start_range_Some [OF assms(3)] obtain n where n: "n < length ?es"
    "trace s1 = trace s @ map (\<lambda>(k, c). ClusterConsumer_Start c None) (take n ?es) @
          [ClusterConsumer_Start (snd (?es ! n)) (Some e),
           logger_Error ''multicluster consumer start error''
             [zap_Error e, zap_String ''cluster'' (fst (?es ! n))]]"
    by auto
  let ?ev1 = "map (\<lambda>(k, c). ClusterConsumer_Start c None) (take n ?es) @
          [ClusterConsumer_Start (snd (?es ! n)) (Some e),
           logger_Error ''multicluster consumer start error''
             [zap_Error e, zap_String ''cluster'' (fst (?es ! n))]]"
  have rl: "RunLifecycle_Start (Start_action env ks) s = (Some e, s1)"
    using assms(2,3) by (simp add: RunLifecycle_Start_def Start_action_def)
  have op: "doneC (coord s) = Open" using guard_inv_Open [OF assms(1)] assms(2) by simp
  have g1: "guard_inv s1"
    using c1 op by (simp add: guard_inv_def)
  have p1: "phase (lifecycle (coord s1)) \<noteq> NotStarted" "phase (lifecycle (coord s1)) \<noteq> Stopped"
    using c1 by simp_all
  from Stop_outcome [OF g1, of env sks cks] p1
  obtain s' ev2 where s': "Stop env sks cks s1 = Inr s'" "guard_inv s'"
    "same_config (coord s1) (coord s')" "trace s' = trace s1 @ ev2" "starts ev2 = []"
    "phase (lifecycle (coord s')) = Stopped"
    "count_list ev2 close_doneC = (if doneC (coord s') = doneC (coord s1) then 0 else 1)"
    "\<forall>x \<in> set (range_entries (clusterConsumerMap (coord s1)) sks).
        ClusterConsumer_Stop (snd x) \<in> set ev2"
    by blast
  have st: "Start env ks sks cks s = Inr (Some e, s')"
    using rl s'(1) by (simp add: Start_def)
  have sc: "same_config (coord s) (coord s')"
    using s'(3) c1 by (simp add: same_config_def)
  have tr: "trace s' = trace s @ (?ev1 @ ev2)" using s'(4) n(2) by simp
  have ss: "starts (?ev1 @ ev2) = map (\<lambda>(k, c). (c, None)) (take n ?es) @ [(snd (?es ! n), Some e)]"
    using s'(5) by simp
  have al: "\<forall>x \<in> set (range_entries (clusterConsumerMap (coord s)) sks).
              ClusterConsumer_Stop (snd x) \<in> set (?ev1 @ ev2)"
    using s'(8) c1 by simp
  have cl: "doneC (coord s') = Closed" using s'(2,6) by (simp add: guard_inv_def)
  have cn: "count_list (?ev1 @ ev2) close_doneC = 1"
    using s'(7) cl op c1 by simp
  show ?thesis
    using st s'(2) sc s'(6) tr n(1) ss al cn op cl
    by (intro exI [of _ s'] exI [of _ "?ev1 @ ev2"] exI [of _ n]) simp
qed


lemma range_entries_sound:
  "x \<in> set (range_entries m ks) \<Longrightarrow> m (fst x) = Some (snd x)"
  by (induction ks) (auto simp: range_entries_Cons split: option.splits)

lemma range_entries_ran:
  assumes "range_order m ks"
  shows "snd ` set (range_entries m ks) = ran m"
proof -
  have "distinct (map fst (range_entries m ks))"
    using assms by (simp add: range_entries_keys range_order_def)
  then have "ran (map_of (range_entries m ks)) = snd ` set (range_entries m ks)"
    by (rule ran_distinct)
  then show ?thesis using assms by (simp add: range_entries_map_of)
qed

lemma Start_outcome:
  assumes "guard_inv s"
  shows "\<exists>res s' evs. Start env ks sks cks s = Inr (res, s') \<and> guard_inv s' \<and>
           same_config (coord s) (coord s') \<and> trace s' = trace s @ evs \<and>
           count_list evs close_doneC = (if doneC (coord s') = doneC (coord s) then 0 else 1) \<and>
           (doneC (coord s) = Closed \<longrightarrow> doneC (coord s') = Closed) \<and>
           (res = None \<longrightarrow> doneC (coord s') = doneC (coord s) \<and>
              phase (lifecycle (coord s')) = Running) \<and>
           (res \<noteq> None \<longrightarrow> phase (lifecycle (coord s')) = Stopped \<and>
              (phase (lifecycle (coord s)) \<noteq> Stopped \<longrightarrow>
                 (\<forall>x \<in> set (range_entries (clusterConsumerMap (coord s)) sks).
                    ClusterConsumer_Stop (snd x) \<in> set evs)))"
proof (cases "phase (lifecycle (coord s)) = NotStarted")
  case True
  let ?es = "range_entries (clusterConsumerMap (coord s)) ks"
  obtain res s1 where sr: "Start_range env ?es (set_phase Starting s) = (res, s1)"
    by (cases "Start_range env ?es (set_phase Starting s)")
  have op: "doneC (coord s) = Open" using guard_inv_Open [OF assms] True by simp
  show ?thesis
  proof (cases res)
    case None
    let ?s' = "emit (Counter_Inc KafkaConsumerStarted)
                  (emit (logger_Info ''multicluster consumer started''
                           [zap_String ''groupName'' (groupName (coord s)),
                            zap_Array ''topicList'' (topics (coord s))])
                     (set_phase Running s1))"
    let ?evs = "map (\<lambda>(k, c). ClusterConsumer_Start c None) ?es @
                  [logger_Info ''multicluster consumer started''
                           [zap_String ''groupName'' (groupName (coord s)),
                            zap_Array ''topicList'' (topics (coord s))],
                   Counter_Inc KafkaConsumerStarted]"
    note ok = Start_first_ok(1) [OF assms True sr [unfolded None], of sks cks]
      Start_first_ok(2,3) [OF assms True sr [unfolded None]]
    have co: "coord ?s' = (coord s)\<lparr>lifecycle := (lifecycle (coord s))\<lparr>phase := Running\<rparr>\<rparr>"
      using ok(2) by simp
    have tr: "trace ?s' = trace s @ ?evs" using ok(3) by simp
    have gi: "guard_inv ?s'" using co op by (simp add: guard_inv_def)
    have sc: "same_config (coord s) (coord ?s')" using co by (simp add: same_config_def)
    have cn: "count_list ?evs close_doneC = (if doneC (coord ?s') = doneC (coord s) then 0 else 1)"
      using co by simp
    have ph: "doneC (coord ?s') = doneC (coord s)" "phase (lifecycle (coord ?s')) = Running"
      using co by simp_all
    show ?thesis
      using ok(1) gi sc tr cn ph
      by (intro exI [of _ None] exI [of _ ?s'] exI [of _ ?evs]) simp
  next
    case (Some e)
    from Start_first_fail [OF assms True sr [unfolded Some], of sks cks]
    obtain s' evs where s': "Start env ks sks cks s = Inr (Some e, s')" "guard_inv s'"
      "same_config (coord s) (coord s')" "phase (lifecycle (coord s')) = Stopped"
      "trace s' = trace s @ evs" "count_list evs close_doneC = 1"
      "doneC (coord s) = Open" "doneC (coord s') = Closed"
      "\<forall>x \<in> set (range_entries (clusterConsumerMap (coord s)) sks).
              ClusterConsumer_Stop (snd x) \<in> set evs"
      by blast
    show ?thesis
      using s' by (intro exI [of _ "Some e"] exI [of _ s'] exI [of _ evs]) simp
  qed
next
  case False
  then have rl: "RunLifecycle_Start (Start_action env ks) s = (Some errStartedTwice, s)"
    by (rule RunLifecycle_Start_past)
  from Stop_outcome [OF assms, of env sks cks] False
  obtain s' evs where s': "Stop env sks cks s = Inr s'" "guard_inv s'"
    "same_config (coord s) (coord s')" "trace s' = trace s @ evs"
    "count_list evs close_doneC = (if doneC (coord s') = doneC (coord s) then 0 else 1)"
    "phase (lifecycle (coord s')) = Stopped"
    "phase (lifecycle (coord s)) \<noteq> Stopped \<longrightarrow>
              (\<forall>x \<in> set (range_entries (clusterConsumerMap (coord s)) sks).
                 ClusterConsumer_Stop (snd x) \<in> set evs)"
    "doneC (coord s) = Closed \<longrightarrow> doneC (coord s') = Closed"
    by blast
  have st: "Start env ks sks cks s = Inr (Some errStartedTwice, s')"
    using rl s'(1) by (simp add: Start_def)
  show ?thesis
    using st s'(2-8) by (intro exI [of _ "Some errStartedTwice"] exI [of _ s'] exI [of _ evs]) simp
qed

lemma count_resets [simp]:
  "count_list (map (\<lambda>((p, r), e). ClusterConsumer_ResetOffset cc t p r e) zs) close_doneC = 0"
  by (induction zs) auto

lemma ResetOffset_each_events:
  "\<exists>evs. trace (snd (ResetOffset_each env cl t es s)) = trace s @ evs \<and>
         count_list evs close_doneC = 0"
proof (cases "clusterConsumerMap (coord s) cl")
  case None
  then show ?thesis by (simp add: ResetOffset_each_absent)
next
  case (Some cc)
  from ResetOffset_each_registered [OF this, of env t es] show ?thesis
    by (intro exI [of _ "map (\<lambda>((p, r), e). ClusterConsumer_ResetOffset cc t p r e)
                       (zip es (map snd (fst (ResetOffset_each env cl t es s))))"]) simp
qed

lemma ResetOffset_events:
  "\<exists>evs. trace (snd (ResetOffset env cl t p r s)) = trace s @ evs \<and>
         count_list evs close_doneC = 0"
  using ResetOffset_each_events [of env cl t "[(p, r)]" s] by (simp split: prod.splits)

lemma MergeDLQ_events:
  "\<exists>evs. trace (snd (MergeDLQ env topic offsetRanges ks s)) = trace s @ evs \<and>
         count_list evs close_doneC = 0"
  using ResetOffset_each_events [of env "Cluster (DLQ topic)" "Name (DLQ topic)"
      "range_entries offsetRanges ks" s]
  by (simp add: MergeDLQ_def MergeDLQ_range_each)

lemma MergeDLQ_coord [simp]: "coord (snd (MergeDLQ env topic offsetRanges ks s)) = coord s"
  by (simp add: MergeDLQ_def MergeDLQ_range_each)

lemma stopped_all_mono:
  assumes "stopped_all s" "same_config (coord s) (coord s')" "trace s' = trace s @ evs"
    and "phase (lifecycle (coord s')) = Stopped \<Longrightarrow> phase (lifecycle (coord s)) \<noteq> Stopped \<Longrightarrow>
           \<forall>cc \<in> ran (clusterConsumerMap (coord s)). ClusterConsumer_Stop cc \<in> set evs"
  shows "stopped_all s'"
  using assms unfolding stopped_all_def same_config_def by auto


lemma exec_outcome:
  assumes "guard_inv s"
  shows "\<exists>r s' evs. exec env c s = Inr (r, s') \<and> guard_inv s' \<and>
           same_config (coord s) (coord s') \<and> trace s' = trace s @ evs \<and>
           count_list evs close_doneC = (if doneC (coord s') = doneC (coord s) then 0 else 1) \<and>
           (doneC (coord s) = Closed \<longrightarrow> doneC (coord s') = Closed) \<and>
           (doneC (coord s') \<noteq> doneC (coord s) \<longrightarrow> invokes_Stop c r) \<and>
           (call_ok (coord s) c \<and> stopped_all s \<longrightarrow> stopped_all s')"
proof (cases c)
  case (Call_Start ks sks cks)
  from Start_outcome [OF assms, of env ks sks cks]
  obtain res s' evs where s': "Start env ks sks cks s = Inr (res, s')" "guard_inv s'"
    "same_config (coord s) (coord s')" "trace s' = trace s @ evs"
    "count_list evs close_doneC = (if doneC (coord s') = doneC (coord s) then 0 else 1)"
    "res = None \<longrightarrow> doneC (coord s') = doneC (coord s) \<and> phase (lifecycle (coord s')) = Running"
    "res \<noteq> None \<longrightarrow> phase (lifecycle (coord s')) = Stopped \<and>
              (phase (lifecycle (coord s)) \<noteq> Stopped \<longrightarrow>
                 (\<forall>x \<in> set (range_entries (clusterConsumerMap (coord s)) sks).
                    ClusterConsumer_Stop (snd x) \<in> set evs))"
    "doneC (coord s) = Closed \<longrightarrow> doneC (coord s') = Closed"
    by blast
  have ex: "exec env c s = Inr (Ret_error res, s')" using Call_Start s'(1) by simp
  have iv: "doneC (coord s') \<noteq> doneC (coord s) \<longrightarrow> invokes_Stop c (Ret_error res)"
    using s'(6) Call_Start by (cases res) auto
  have sa: "stopped_all s'" if ok: "call_ok (coord s) c" and st: "stopped_all s"
  proof (rule stopped_all_mono [OF st s'(3,4)])
    assume a: "phase (lifecycle (coord s')) = Stopped" "phase (lifecycle (coord s)) \<noteq> Stopped"
    then have "res \<noteq> None" using s'(6) by auto
    with s'(7) a have "\<forall>x \<in> set (range_entries (clusterConsumerMap (coord s)) sks).
                    ClusterConsumer_Stop (snd x) \<in> set evs" by blast
    moreover have "snd ` set (range_entries (clusterConsumerMap (coord s)) sks) =
        ran (clusterConsumerMap (coord s))"
      using ok Call_Start by (simp add: range_entries_ran)
    ultimately show "\<forall>cc \<in> ran (clusterConsumerMap (coord s)). ClusterConsumer_Stop cc \<in> set evs"
      by force
  qed
  show ?thesis
    using ex s'(2-5,8) iv sa
    by (intro exI [of _ "Ret_error res"] exI [of _ s'] exI [of _ evs]) blast
next
  case (Call_Stop ks cks)
  from Stop_outcome [OF assms, of env ks cks]
  obtain s' evs where s': "Stop env ks cks s = Inr s'" "guard_inv s'"
    "same_config (coord s) (coord s')" "trace s' = trace s @ evs"
    "count_list evs close_doneC = (if doneC (coord s') = doneC (coord s) then 0 else 1)"
    "phase (lifecycle (coord s)) = NotStarted \<longrightarrow> s' = s"
    "phase (lifecycle (coord s)) \<noteq> NotStarted \<and> phase (lifecycle (coord s)) \<noteq> Stopped \<longrightarrow>
              (\<forall>x \<in> set (range_entries (clusterConsumerMap (coord s)) ks).
                 ClusterConsumer_Stop (snd x) \<in> set evs)"
    "doneC (coord s) = Closed \<longrightarrow> doneC (coord s') = Closed"
    by blast
  have ex: "exec env c s = Inr (Ret_nothing, s')" using Call_Stop s'(1) by simp
  have iv: "invokes_Stop c Ret_nothing" using Call_Stop by simp
  have sa: "stopped_all s'" if ok: "call_ok (coord s) c" and st: "stopped_all s"
  proof (rule stopped_all_mono [OF st s'(3,4)])
    assume a: "phase (lifecycle (coord s')) = Stopped" "phase (lifecycle (coord s)) \<noteq> Stopped"
    then have "phase (lifecycle (coord s)) \<noteq> NotStarted" using s'(6) by auto
    with s'(7) a have "\<forall>x \<in> set (range_entries (clusterConsumerMap (coord s)) ks).
                    ClusterConsumer_Stop (snd x) \<in> set evs" by blast
    moreover have "snd ` set (range_entries (clusterConsumerMap (coord s)) ks) =
        ran (clusterConsumerMap (coord s))"
      using ok Call_Stop by (simp add: range_entries_ran)
    ultimately show "\<forall>cc \<in> ran (clusterConsumerMap (coord s)). ClusterConsumer_Stop cc \<in> set evs"
      by force
  qed
  show ?thesis
    using ex s'(2-5,8) iv sa
    by (intro exI [of _ Ret_nothing] exI [of _ s'] exI [of _ evs]) blast
next
  case (Call_ResetOffset cl t p r)
  obtain e s' where ro: "ResetOffset env cl t p r s = (e, s')"
    by (cases "ResetOffset env cl t p r s")
  have co: "coord s' = coord s" using ResetOffset_coord [of env cl t p r s] ro by simp
  obtain evs where evs: "trace s' = trace s @ evs" "count_list evs close_doneC = 0"
    using ResetOffset_events [of env cl t p r s] ro by auto
  have ex: "exec env c s = Inr (Ret_error e, s')" using Call_ResetOffset ro by simp
  have gi: "guard_inv s'" using assms co by (simp add: guard_inv_def)
  have sa: "stopped_all s \<longrightarrow> stopped_all s'"
    using co evs(1) by (auto simp: stopped_all_def)
  show ?thesis
    using ex gi co evs sa
    by (intro exI [of _ "Ret_error e"] exI [of _ s'] exI [of _ evs]) simp
next
  case (Call_MergeDLQ topic offsetRanges ks)
  obtain e s' where ro: "MergeDLQ env topic offsetRanges ks s = (e, s')"
    by (cases "MergeDLQ env topic offsetRanges ks s")
  have co: "coord s' = coord s" using MergeDLQ_coord [of env topic offsetRanges ks s] ro by simp
  obtain evs where evs: "trace s' = trace s @ evs" "count_list evs close_doneC = 0"
    using MergeDLQ_events [of env topic offsetRanges ks s] ro by auto
  have ex: "exec env c s = Inr (Ret_error e, s')" using Call_MergeDLQ ro by simp
  have gi: "guard_inv s'" using assms co by (simp add: guard_inv_def)
  have sa: "stopped_all s \<longrightarrow> stopped_all s'"
    using co evs(1) by (auto simp: stopped_all_def)
  show ?thesis
    using ex gi co evs sa
    by (intro exI [of _ "Ret_error e"] exI [of _ s'] exI [of _ evs]) simp
next
  case Call_Name
  then show ?thesis using assms
    by (intro exI [of _ "Ret_string (Name' (coord s))"] exI [of _ s] exI [of _ "[]"]) simp
next
  case Call_Topics
  then show ?thesis using assms
    by (intro exI [of _ "Ret_topics (Topics (coord s))"] exI [of _ s] exI [of _ "[]"]) simp
next
  case Call_Closed
  then show ?thesis using assms
    by (intro exI [of _ "Ret_chan (Closed' (coord s))"] exI [of _ s] exI [of _ "[]"]) simp
next
  case Call_Messages
  then show ?thesis using assms
    by (intro exI [of _ "Ret_chan (Messages (coord s))"] exI [of _ s] exI [of _ "[]"]) simp
qed

lemma run_outcome:
  assumes "guard_inv s"
  shows "\<exists>rets s' evs. run env calls s = Inr (rets, s') \<and> guard_inv s' \<and>
           length rets = length calls \<and>
           same_config (coord s) (coord s') \<and> trace s' = trace s @ evs \<and>
           count_list evs close_doneC = (if doneC (coord s') = doneC (coord s) then 0 else 1) \<and>
           (doneC (coord s) = Closed \<longrightarrow> doneC (coord s') = Closed) \<and>
           (doneC (coord s') \<noteq> doneC (coord s) \<longrightarrow>
              list_ex (\<lambda>(c, r). invokes_Stop c r) (zip calls rets)) \<and>
           (list_all (call_ok (coord s)) calls \<and> stopped_all s \<longrightarrow> stopped_all s')"
  using assms
proof (induction calls arbitrary: s)
  case Nil
  then show ?case by (intro exI [of _ "[]"] exI [of _ s]) simp
next
  case (Cons c calls)
  from exec_outcome [OF Cons.prems, of env c]
  obtain r s1 ev1 where s1: "exec env c s = Inr (r, s1)" "guard_inv s1"
    "same_config (coord s) (coord s1)" "trace s1 = trace s @ ev1"
    "count_list ev1 close_doneC = (if doneC (coord s1) = doneC (coord s) then 0 else 1)"
    "doneC (coord s) = Closed \<longrightarrow> doneC (coord s1) = Closed"
    "doneC (coord s1) \<noteq> doneC (coord s) \<longrightarrow> invokes_Stop c r"
    "call_ok (coord s) c \<and> stopped_all s \<longrightarrow> stopped_all s1"
    by blast
  from Cons.IH [OF s1(2)]
  obtain rets s' ev2 where s': "run env calls s1 = Inr (rets, s')" "guard_inv s'"
    "length rets = length calls"
    "same_config (coord s1) (coord s')" "trace s' = trace s1 @ ev2"
    "count_list ev2 close_doneC = (if doneC (coord s') = doneC (coord s1) then 0 else 1)"
    "doneC (coord s1) = Closed \<longrightarrow> doneC (coord s') = Closed"
    "doneC (coord s') \<noteq> doneC (coord s1) \<longrightarrow>
              list_ex (\<lambda>(c, r). invokes_Stop c r) (zip calls rets)"
    "list_all (call_ok (coord s1)) calls \<and> stopped_all s1 \<longrightarrow> stopped_all s'"
    by blast
  have rn: "run env (c # calls) s = Inr (r # rets, s')" using s1(1) s'(1) by simp
  have le: "length (r # rets) = length (c # calls)" using s'(3) by simp
  have sc: "same_config (coord s) (coord s')" using s1(3) s'(4) by (rule same_config_trans)
  have tr: "trace s' = trace s @ (ev1 @ ev2)" using s1(4) s'(5) by simp
  have cn: "count_list (ev1 @ ev2) close_doneC =
      (if doneC (coord s') = doneC (coord s) then 0 else 1)"
    using s1(5,6) s'(6,7)
    by (cases "doneC (coord s)"; cases "doneC (coord s1)"; cases "doneC (coord s')") simp_all
  have mo: "doneC (coord s) = Closed \<longrightarrow> doneC (coord s') = Closed" using s1(6) s'(7) by simp
  have iv: "doneC (coord s') \<noteq> doneC (coord s) \<longrightarrow>
              list_ex (\<lambda>(c, r). invokes_Stop c r) (zip (c # calls) (r # rets))"
    using s1(7) s'(8) by auto
  have maps: "clusterConsumerMap (coord s1) = clusterConsumerMap (coord s)"
    "clusterToSaramaClientMap (coord s1) = clusterToSaramaClientMap (coord s)"
    using s1(3) by (simp_all add: same_config_def)
  have ok: "list_all (call_ok (coord s1)) calls = list_all (call_ok (coord s)) calls"
  proof -
    have "call_ok (coord s1) x = call_ok (coord s) x" for x :: "'a call"
      using maps by (cases x) simp_all
    then show ?thesis by (simp add: list_all_iff)
  qed
  have sa: "list_all (call_ok (coord s)) (c # calls) \<and> stopped_all s \<longrightarrow> stopped_all s'"
    using s1(8) s'(9) ok by simp
  show ?case
    using rn s'(2) le sc tr cn mo iv sa
    by (intro exI [of _ "r # rets"] exI [of _ s'] exI [of _ "ev1 @ ev2"]) blast
qed


lemma Start_range_all_ok:
  "(\<forall>h. \<forall>c \<in> snd ` set es. consumer_Start env h c = None) \<Longrightarrow> fst (Start_range env es s) = None"
  by (induction es arbitrary: s) (auto simp: Let_def)

text \<open>
  C1, as amended. On a coordinator whose lifecycle guard has not been started and whose
  done channel is open, \<open>Start\<close> returns without a panic. It returns nil exactly when
  the consumers started are all the registered ones, in the order of the loop, each
  returning nil; when it returns an error, that error is the one returned by the first
  consumer that failed, the consumers before it returned nil and none after it was
  started. If no registered consumer can fail to start, and so when none is registered,
  it returns nil.
\<close>

theorem Start_first_call:
  assumes "phase (lifecycle (coord s)) = NotStarted" and "doneC (coord s) = Open"
    and "range_order (clusterConsumerMap (coord s)) ks"
    and "es = range_entries (clusterConsumerMap (coord s)) ks"
  shows "map fst es = ks \<and> map_of es = clusterConsumerMap (coord s) \<and>
     (\<exists>res s' evs. Start env ks sks cks s = Inr (res, s') \<and> trace s' = trace s @ evs \<and>
        (res = None \<longleftrightarrow> starts evs = map (\<lambda>(k, c). (c, None)) es) \<and>
        (\<forall>e. res = Some e \<longrightarrow>
           (\<exists>n<length es. starts evs =
              map (\<lambda>(k, c). (c, None)) (take n es) @ [(snd (es ! n), Some e)])) \<and>
        ((\<forall>h. \<forall>c \<in> ran (clusterConsumerMap (coord s)). consumer_Start env h c = None) \<longrightarrow>
           res = None) \<and>
        (clusterConsumerMap (coord s) = Map.empty \<longrightarrow> res = None))"
proof -
  have gi: "guard_inv s" using assms(1,2) by (simp add: guard_inv_def)
  have keys: "map fst es = ks" "map_of es = clusterConsumerMap (coord s)"
    using assms(3,4) by (simp_all add: range_entries_keys range_entries_map_of)
  have rn: "snd ` set es = ran (clusterConsumerMap (coord s))"
    using assms(3,4) by (simp add: range_entries_ran)
  obtain res s1 where sr: "Start_range env es (set_phase Starting s) = (res, s1)"
    by (cases "Start_range env es (set_phase Starting s)")
  have allok: "res = None"
    if "\<forall>h. \<forall>c \<in> ran (clusterConsumerMap (coord s)). consumer_Start env h c = None"
    using Start_range_all_ok [of es env "set_phase Starting s"] that rn sr by simp
  have "\<exists>res s' evs. Start env ks sks cks s = Inr (res, s') \<and> trace s' = trace s @ evs \<and>
        (res = None \<longleftrightarrow> starts evs = map (\<lambda>(k, c). (c, None)) es) \<and>
        (\<forall>e. res = Some e \<longrightarrow>
           (\<exists>n<length es. starts evs =
              map (\<lambda>(k, c). (c, None)) (take n es) @ [(snd (es ! n), Some e)])) \<and>
        ((\<forall>h. \<forall>c \<in> ran (clusterConsumerMap (coord s)). consumer_Start env h c = None) \<longrightarrow>
           res = None) \<and>
        (clusterConsumerMap (coord s) = Map.empty \<longrightarrow> res = None)"
  proof (cases res)
    case None
    let ?s' = "emit (Counter_Inc KafkaConsumerStarted)
                  (emit (logger_Info ''multicluster consumer started''
                           [zap_String ''groupName'' (groupName (coord s)),
                            zap_Array ''topicList'' (topics (coord s))])
                     (set_phase Running s1))"
    let ?evs = "map (\<lambda>(k, c). ClusterConsumer_Start c None) es @
                  [logger_Info ''multicluster consumer started''
                           [zap_String ''groupName'' (groupName (coord s)),
                            zap_Array ''topicList'' (topics (coord s))],
                   Counter_Inc KafkaConsumerStarted]"
    note sr' = sr [unfolded None assms(4)]
    have st: "Start env ks sks cks s = Inr (None, ?s')"
      by (rule Start_first_ok(1) [OF gi assms(1) sr'])
    have tr: "trace ?s' = trace s @ ?evs"
      using Start_first_ok(3) [OF gi assms(1) sr'] assms(4) by simp
    have ss: "starts ?evs = map (\<lambda>(k, c). (c, None)) es" by simp
    show ?thesis
      using st tr ss by (intro exI [of _ None] exI [of _ ?s'] exI [of _ ?evs]) simp
  next
    case (Some e)
    note sr' = sr [unfolded Some assms(4)]
    from Start_first_fail [OF gi assms(1) sr', of sks cks]
    obtain s' evs n where s': "Start env ks sks cks s = Inr (Some e, s')"
      "trace s' = trace s @ evs" "n < length es"
      "starts evs = map (\<lambda>(k, c). (c, None)) (take n es) @ [(snd (es ! n), Some e)]"
      unfolding assms(4) by blast
    have ne: "starts evs \<noteq> map (\<lambda>(k, c). (c, None)) es"
    proof
      assume "starts evs = map (\<lambda>(k, c). (c, None)) es"
      then have "(snd (es ! n), Some e) \<in> set (map (\<lambda>(k, c). (c, None)) es)"
        using s'(4) by (metis in_set_conv_decomp)
      then show False by auto
    qed
    have nonempty: "clusterConsumerMap (coord s) \<noteq> Map.empty"
    proof
      assume "clusterConsumerMap (coord s) = Map.empty"
      then have "es = []" using assms(4) by simp
      then show False using s'(3) by simp
    qed
    have notall: "\<not> (\<forall>h. \<forall>c \<in> ran (clusterConsumerMap (coord s)). consumer_Start env h c = None)"
      using allok Some by blast
    show ?thesis
      using s'(1,2,3,4) ne nonempty notall
      by (intro exI [of _ "Some e"] exI [of _ s'] exI [of _ evs]) auto
  qed
  with keys show ?thesis by blast
qed


lemmas ex_defs = fresh_def ex_coord_def ex_consumers_def ex_clients_def ex_env_def
  NewMultiClusterConsumer_def NewRunLifecycle_def

lemmas run_defs = Start_def RunLifecycle_Start_def Start_action_def Stop_def
  RunLifecycle_Stop_def Stop_action_def close_done_def set_phase_def emit_def
  range_entries_Cons Let_def

lemma ex_fresh:
  "phase (lifecycle (coord (fresh ex_coord))) = NotStarted"
  "doneC (coord (fresh ex_coord)) = Open"
  "trace (fresh ex_coord) = []"
  "clusterConsumerMap (coord (fresh ex_coord)) = ex_consumers"
  "clusterToSaramaClientMap (coord (fresh ex_coord)) = ex_clients"
  by (simp_all add: fresh_def ex_coord_def NewMultiClusterConsumer_def NewRunLifecycle_def)

lemma ex_orders:
  "range_order ex_consumers [''cc1'', ''cc2'', ''dlq-cluster'']"
  "range_order ex_consumers [''dlq-cluster'', ''cc2'', ''cc1'']"
  "range_order ex_clients [''cc1'']"
  by (auto simp: range_order_def ex_consumers_def ex_clients_def)

lemma ex_entries:
  "range_entries ex_consumers [''cc1'', ''cc2'', ''dlq-cluster''] =
     [(''cc1'', ClusterConsumerPtr 1), (''cc2'', ClusterConsumerPtr 2),
      (''dlq-cluster'', ClusterConsumerPtr 3)]"
  "range_entries ex_consumers [''dlq-cluster'', ''cc2'', ''cc1''] =
     [(''dlq-cluster'', ClusterConsumerPtr 3), (''cc2'', ClusterConsumerPtr 2),
      (''cc1'', ClusterConsumerPtr 1)]"
  "range_entries ex_clients [''cc1''] = [(''cc1'', ClientRef 1)]"
  by (simp_all add: range_entries_Cons ex_consumers_def ex_clients_def)

lemma ex_Start_result:
  "map_sum id fst (Start ex_env [''cc1'', ''cc2'', ''dlq-cluster''] [''dlq-cluster'', ''cc2'', ''cc1'']
      [''cc1''] (fresh ex_coord)) = Inr (Some (Err ''error''))"
  by (simp add: ex_defs run_defs)

theorem Start_first_call_witness:
  "phase (lifecycle (coord (fresh ex_coord :: nat state))) = NotStarted \<and>
   doneC (coord (fresh ex_coord :: nat state)) = Open \<and>
   range_order (clusterConsumerMap (coord (fresh ex_coord :: nat state)))
     [''cc1'', ''cc2'', ''dlq-cluster''] \<and>
   (\<exists>s' evs n. Start ex_env [''cc1'', ''cc2'', ''dlq-cluster''] [''dlq-cluster'', ''cc2'', ''cc1'']
        [''cc1''] (fresh ex_coord) = Inr (Some (Err ''error''), s') \<and>
      trace s' = evs \<and> n < 3 \<and>
      starts evs =
        map (\<lambda>(k, c). (c, None))
          (take n [(''cc1'', ClusterConsumerPtr 1), (''cc2'', ClusterConsumerPtr 2),
                   (''dlq-cluster'', ClusterConsumerPtr 3)]) @
        [(snd ([(''cc1'', ClusterConsumerPtr 1), (''cc2'', ClusterConsumerPtr 2),
                (''dlq-cluster'', ClusterConsumerPtr 3)] ! n), Some (Err ''error''))])"
proof -
  let ?s = "fresh ex_coord :: nat state"
  let ?es = "[(''cc1'', ClusterConsumerPtr 1), (''cc2'', ClusterConsumerPtr 2),
              (''dlq-cluster'', ClusterConsumerPtr 3)]"
  have h1: "phase (lifecycle (coord ?s)) = NotStarted" by (rule ex_fresh)
  have h2: "doneC (coord ?s) = Open" by (rule ex_fresh)
  have h3: "range_order (clusterConsumerMap (coord ?s)) [''cc1'', ''cc2'', ''dlq-cluster'']"
    by (simp only: ex_fresh ex_orders)
  have h4: "?es = range_entries (clusterConsumerMap (coord ?s)) [''cc1'', ''cc2'', ''dlq-cluster'']"
    by (simp only: ex_fresh ex_entries)
  from Start_first_call [OF h1 h2 h3 h4, of ex_env "[''dlq-cluster'', ''cc2'', ''cc1'']" "[''cc1'']"]
  obtain res s' evs where r: "Start ex_env [''cc1'', ''cc2'', ''dlq-cluster'']
        [''dlq-cluster'', ''cc2'', ''cc1''] [''cc1''] ?s = Inr (res, s')"
    "trace s' = trace ?s @ evs"
    "\<forall>e. res = Some e \<longrightarrow>
           (\<exists>n<length ?es. starts evs =
              map (\<lambda>(k, c). (c, None)) (take n ?es) @ [(snd (?es ! n), Some e)])"
    by blast
  have res: "res = Some (Err ''error'')" using ex_Start_result r(1) by simp
  with r(3) obtain n where n: "n < length ?es"
    "starts evs = map (\<lambda>(k, c). (c, None)) (take n ?es) @ [(snd (?es ! n), Some (Err ''error''))]"
    by blast
  have "n < 3" using n(1) by simp
  moreover have "trace s' = evs" using r(2) by (simp add: ex_fresh)
  ultimately show ?thesis using h1 h2 h3 r(1) res n(2) by blast
qed

text \<open>
  C1 as stated does not hold of a second call: with no consumer registered at all, the
  second \<open>Start\<close> is refused by the guard and returns its error.
\<close>

theorem Start_second_call_counterexample:
  "map_sum id fst
     (run ex_env [Call_Start [] [] [], Call_Start [] [] []]
        (fresh (NewMultiClusterConsumer ''unit-test-cg'' [ex_topic] Map.empty Map.empty Open))) =
   Inr [Ret_error None, Ret_error (Some (Err ''not started twice''))]"
  by (simp add: ex_defs run_defs errStartedTwice_def)



lemma fresh_inv:
  "guard_inv (fresh (NewMultiClusterConsumer name ts consumers clients ch))"
  "stopped_all (fresh (NewMultiClusterConsumer name ts consumers clients ch))"
  by (simp_all add: guard_inv_def stopped_all_def fresh_def NewMultiClusterConsumer_def
      NewRunLifecycle_def)

lemma call_ok_same:
  "same_config c c' \<Longrightarrow> call_ok c' x = call_ok c x"
  by (cases x) (simp_all add: same_config_def)

lemma Start_error_via_Stop:
  assumes "Start env ks sks cks s = Inr (Some e, s')"
  shows "\<exists>s1. RunLifecycle_Start (Start_action env ks) s = (Some e, s1) \<and>
              Stop env sks cks s1 = Inr s'"
proof -
  obtain r1 s1 where rl: "RunLifecycle_Start (Start_action env ks) s = (r1, s1)"
    by (cases "RunLifecycle_Start (Start_action env ks) s")
  show ?thesis
  proof (cases r1)
    case None
    have "Start env ks sks cks s =
          Inr (None, emit (Counter_Inc KafkaConsumerStarted)
                 (emit (logger_Info ''multicluster consumer started''
                          [zap_String ''groupName'' (groupName (coord s1)),
                           zap_Array ''topicList'' (topics (coord s1))]) s1))"
      unfolding Start_def rl None by simp
    with assms show ?thesis by simp
  next
    case (Some e1)
    show ?thesis
    proof (cases "Stop env sks cks s1")
      case (Inl p)
      have "Start env ks sks cks s = Inl p" unfolding Start_def rl Some by (simp add: Inl)
      with assms show ?thesis by simp
    next
      case (Inr s3)
      have "Start env ks sks cks s = Inr (Some e1, s3)" unfolding Start_def rl Some by (simp add: Inr)
      with assms have "e1 = e" "s3 = s'" by simp_all
      then show ?thesis using rl Some Inr by simp
    qed
  qed
qed

text \<open>
  C2. In any state reached from a new coordinator by calls whose loops visit the maps'
  keys, a \<open>Start\<close> returns without a panic, and when it returns an error it has gone
  through the coordinator's own \<open>Stop\<close> first: afterwards the guard is stopped and
  every registered consumer has a \<open>Stop\<close> call in the trace.
\<close>

theorem Start_error_stops_all:
  assumes "c0 = NewMultiClusterConsumer name ts consumers clients ch"
    and "list_all (call_ok c0) calls" and "call_ok c0 (Call_Start ks sks cks :: 'r call)"
    and "run env calls (fresh c0) = Inr (rets, s :: 'r state)"
  shows "\<exists>res s'. Start env ks sks cks s = Inr (res, s') \<and>
           (res \<noteq> None \<longrightarrow>
              (\<exists>s1. RunLifecycle_Start (Start_action env ks) s = (res, s1) \<and>
                    Stop env sks cks s1 = Inr s') \<and>
              (\<forall>cc \<in> ran consumers. ClusterConsumer_Stop cc \<in> set (trace s')) \<and>
              phase (lifecycle (coord s')) = Stopped)"
proof -
  have g0: "guard_inv (fresh c0 :: 'r state)" and a0: "stopped_all (fresh c0 :: 'r state)"
    unfolding assms(1) by (rule fresh_inv)+
  have c0: "coord (fresh c0 :: 'r state) = c0" by (simp add: fresh_def)
  from run_outcome [OF g0, of env calls]
  obtain rets0 s0 where ro: "run env calls (fresh c0) = Inr (rets0, s0)" "guard_inv s0"
    "same_config (coord (fresh c0 :: 'r state)) (coord s0)"
    "list_all (call_ok (coord (fresh c0 :: 'r state))) calls \<and> stopped_all (fresh c0 :: 'r state)
       \<longrightarrow> stopped_all s0"
    by blast
  have s0: "s0 = s" using ro(1) assms(4) by simp
  have gs: "guard_inv s" using ro(2) s0 by simp
  have sc: "same_config c0 (coord s)" using ro(3) s0 c0 by simp
  have as: "stopped_all s" using ro(4) s0 c0 assms(2) a0 by simp
  have ok: "call_ok (coord s) (Call_Start ks sks cks :: 'r call)"
    using assms(3) unfolding call_ok_same [OF sc] .
  from Start_outcome [OF gs, of env ks sks cks]
  obtain res s' evs where st: "Start env ks sks cks s = Inr (res, s')"
    and ph: "res \<noteq> None \<longrightarrow> phase (lifecycle (coord s')) = Stopped"
    by blast
  from exec_outcome [OF gs, of env "Call_Start ks sks cks"]
  obtain r s2 where e: "exec env (Call_Start ks sks cks) s = Inr (r, s2)"
    "same_config (coord s) (coord s2)"
    "call_ok (coord s) (Call_Start ks sks cks :: 'r call) \<and> stopped_all s \<longrightarrow> stopped_all s2"
    by blast
  have s2: "s2 = s'" using e(1) st by simp
  have sa': "stopped_all s'" using e(3) ok as s2 by simp
  have mp: "clusterConsumerMap (coord s') = consumers"
    using sc e(2) s2 by (simp add: same_config_def assms(1) NewMultiClusterConsumer_def)
  have stops: "\<forall>cc \<in> ran consumers. ClusterConsumer_Stop cc \<in> set (trace s')" if "res \<noteq> None"
    using ph that sa' mp by (simp add: stopped_all_def)
  have via: "\<exists>s1. RunLifecycle_Start (Start_action env ks) s = (res, s1) \<and>
                    Stop env sks cks s1 = Inr s'" if ne: "res \<noteq> None"
  proof -
    from ne obtain e where re: "res = Some e" by (cases res) auto
    have "Start env ks sks cks s = Inr (Some e, s')" unfolding st re ..
    from Start_error_via_Stop [OF this] show ?thesis unfolding re .
  qed
  show ?thesis
  proof (cases res)
    case None
    with st show ?thesis by (intro exI [of _ res] exI [of _ s']) simp
  next
    case (Some e)
    then have ne: "res \<noteq> None" by simp
    have "(\<exists>s1. RunLifecycle_Start (Start_action env ks) s = (res, s1) \<and>
                    Stop env sks cks s1 = Inr s') \<and>
              (\<forall>cc \<in> ran consumers. ClusterConsumer_Stop cc \<in> set (trace s')) \<and>
              phase (lifecycle (coord s')) = Stopped"
      using via [OF ne] stops [OF ne] ph ne by (intro conjI) blast+
    with st show ?thesis by (intro exI [of _ res] exI [of _ s']) simp
  qed
qed

lemma ex_ran:
  "ClusterConsumerPtr 1 \<in> ran ex_consumers" "ClusterConsumerPtr 2 \<in> ran ex_consumers"
  "ClusterConsumerPtr 3 \<in> ran ex_consumers"
proof -
  show "ClusterConsumerPtr 1 \<in> ran ex_consumers"
    by (rule ranI [of _ "''cc1''"]) (simp add: ex_consumers_def)
  show "ClusterConsumerPtr 2 \<in> ran ex_consumers"
    by (rule ranI [of _ "''cc2''"]) (simp add: ex_consumers_def)
  show "ClusterConsumerPtr 3 \<in> ran ex_consumers"
    by (rule ranI [of _ "''dlq-cluster''"]) (simp add: ex_consumers_def)
qed

theorem Start_error_stops_all_witness:
  "list_all (call_ok ex_coord) ([] :: nat call list) \<and>
   call_ok ex_coord
     (Call_Start [''cc1'', ''cc2'', ''dlq-cluster''] [''dlq-cluster'', ''cc2'', ''cc1''] [''cc1'']
        :: nat call) \<and>
   run ex_env [] (fresh ex_coord) = Inr ([], fresh ex_coord) \<and>
   (\<exists>s'. Start ex_env [''cc1'', ''cc2'', ''dlq-cluster''] [''dlq-cluster'', ''cc2'', ''cc1'']
        [''cc1''] (fresh ex_coord) = Inr (Some (Err ''error''), s') \<and>
      ClusterConsumer_Stop (ClusterConsumerPtr 1) \<in> set (trace s') \<and>
      ClusterConsumer_Stop (ClusterConsumerPtr 2) \<in> set (trace s') \<and>
      ClusterConsumer_Stop (ClusterConsumerPtr 3) \<in> set (trace s') \<and>
      phase (lifecycle (coord s')) = Stopped)"
proof -
  have h1: "ex_coord = NewMultiClusterConsumer ''unit-test-cg'' [ex_topic] ex_consumers ex_clients Open"
    by (rule ex_coord_def)
  have h2: "list_all (call_ok ex_coord) ([] :: nat call list)" by simp
  have h3: "call_ok ex_coord
     (Call_Start [''cc1'', ''cc2'', ''dlq-cluster''] [''dlq-cluster'', ''cc2'', ''cc1''] [''cc1'']
        :: nat call)"
    using ex_orders by (simp add: ex_coord_def NewMultiClusterConsumer_def)
  have h4: "run ex_env [] (fresh ex_coord) = Inr ([], fresh ex_coord)" by simp
  from Start_error_stops_all [OF h1 h2 h3 h4]
  obtain res s' where r: "Start ex_env [''cc1'', ''cc2'', ''dlq-cluster'']
        [''dlq-cluster'', ''cc2'', ''cc1''] [''cc1''] (fresh ex_coord) = Inr (res, s')"
    "res \<noteq> None \<longrightarrow>
       (\<exists>s1. RunLifecycle_Start
               (Start_action ex_env [''cc1'', ''cc2'', ''dlq-cluster'']) (fresh ex_coord) = (res, s1) \<and>
             Stop ex_env [''dlq-cluster'', ''cc2'', ''cc1''] [''cc1''] s1 = Inr s') \<and>
       (\<forall>cc \<in> ran ex_consumers. ClusterConsumer_Stop cc \<in> set (trace s')) \<and>
       phase (lifecycle (coord s')) = Stopped"
    by (elim exE conjE) (rule that)
  have "map_sum id fst (Inr (res, s') :: panic + error option \<times> nat state) = Inr (Some (Err ''error''))"
    using ex_Start_result unfolding r(1) .
  then have res: "res = Some (Err ''error'')" by simp
  then have "res \<noteq> None" by simp
  with r(2) have all: "\<forall>cc \<in> ran ex_consumers. ClusterConsumer_Stop cc \<in> set (trace s')"
    and ph: "phase (lifecycle (coord s')) = Stopped" by simp_all
  have st: "Start ex_env [''cc1'', ''cc2'', ''dlq-cluster''] [''dlq-cluster'', ''cc2'', ''cc1'']
        [''cc1''] (fresh ex_coord) = Inr (Some (Err ''error''), s')"
    using r(1) unfolding res .
  have s1: "ClusterConsumer_Stop (ClusterConsumerPtr 1) \<in> set (trace s')"
    using all ex_ran(1) by (rule bspec)
  have s2: "ClusterConsumer_Stop (ClusterConsumerPtr 2) \<in> set (trace s')"
    using all ex_ran(2) by (rule bspec)
  have s3: "ClusterConsumer_Stop (ClusterConsumerPtr 3) \<in> set (trace s')"
    using all ex_ran(3) by (rule bspec)
  show ?thesis
    by (intro conjI exI [of _ s']) (fact h2 h3 h4 st s1 s2 s3 ph)+
qed

text \<open>
  C6. \<open>Stop\<close> has no error result and, with the done channel open, does not panic. When
  the guard lets the teardown run (it is past \<open>NotStarted\<close> and not yet \<open>Stopped\<close>),
  \<open>Stop\<close> stops every registered consumer, then closes every client whatever the
  closes return, then closes the done channel, then logs and counts, in this order, and
  returns with the guard stopped; otherwise it returns the state as it was. The teardown
  it hands to the guard does exactly these steps.
\<close>

theorem Stop_teardown:
  assumes "range_order (clusterConsumerMap (coord s)) ks"
    and "range_order (clusterToSaramaClientMap (coord s)) cks"
    and "doneC (coord s) = Open"
    and "es = range_entries (clusterConsumerMap (coord s)) ks"
    and "cs = range_entries (clusterToSaramaClientMap (coord s)) cks"
  shows "map fst es = ks \<and> map_of es = clusterConsumerMap (coord s) \<and>
         map fst cs = cks \<and> map_of cs = clusterToSaramaClientMap (coord s) \<and>
         (\<exists>s' rs. Stop_action env ks cks s = Inr s' \<and> length rs = length cs \<and>
            trace s' = trace s @
              map (\<lambda>(k, c). ClusterConsumer_Stop c) es @
              map (\<lambda>((k, c), r). Client_Close c r) (zip cs rs) @
              [close_doneC,
               logger_Info ''multicluster consumer stopped''
                 [zap_String ''groupName'' (groupName (coord s)),
                  zap_Array ''topicList'' (topics (coord s))],
               Counter_Inc KafkaConsumerStopped] \<and>
            doneC (coord s') = Closed) \<and>
         (\<exists>s'. Stop env ks cks s = Inr s') \<and>
         (phase (lifecycle (coord s)) = NotStarted \<or> phase (lifecycle (coord s)) = Stopped \<longrightarrow>
            Stop env ks cks s = Inr s) \<and>
         (phase (lifecycle (coord s)) \<noteq> NotStarted \<and> phase (lifecycle (coord s)) \<noteq> Stopped \<longrightarrow>
            (\<exists>s' rs. Stop env ks cks s = Inr s' \<and> length rs = length cs \<and>
               trace s' = trace s @
                 map (\<lambda>(k, c). ClusterConsumer_Stop c) es @
                 map (\<lambda>((k, c), r). Client_Close c r) (zip cs rs) @
                 [close_doneC,
                  logger_Info ''multicluster consumer stopped''
                    [zap_String ''groupName'' (groupName (coord s)),
                     zap_Array ''topicList'' (topics (coord s))],
                  Counter_Inc KafkaConsumerStopped] \<and>
               coord s' = (coord s)\<lparr>doneC := Closed,
                                    lifecycle := (lifecycle (coord s))\<lparr>phase := Stopped\<rparr>\<rparr>))"
proof -
  have keys: "map fst es = ks" "map_of es = clusterConsumerMap (coord s)"
    "map fst cs = cks" "map_of cs = clusterToSaramaClientMap (coord s)"
    using assms by (simp_all add: range_entries_keys range_entries_map_of)
  from Stop_action_Open [OF assms(3), of env ks cks]
  obtain s' rs where s': "Stop_action env ks cks s = Inr s'"
    "coord s' = (coord s)\<lparr>doneC := Closed\<rparr>" "length rs = length cs"
    "trace s' = trace s @
              map (\<lambda>(k, c). ClusterConsumer_Stop c) es @
              map (\<lambda>((k, c), r). Client_Close c r) (zip cs rs) @
              [close_doneC,
               logger_Info ''multicluster consumer stopped''
                 [zap_String ''groupName'' (groupName (coord s)),
                  zap_Array ''topicList'' (topics (coord s))],
               Counter_Inc KafkaConsumerStopped]"
    unfolding assms(4,5) by blast
  have body: "\<exists>s' rs. Stop_action env ks cks s = Inr s' \<and> length rs = length cs \<and>
            trace s' = trace s @
              map (\<lambda>(k, c). ClusterConsumer_Stop c) es @
              map (\<lambda>((k, c), r). Client_Close c r) (zip cs rs) @
              [close_doneC,
               logger_Info ''multicluster consumer stopped''
                 [zap_String ''groupName'' (groupName (coord s)),
                  zap_Array ''topicList'' (topics (coord s))],
               Counter_Inc KafkaConsumerStopped] \<and>
            doneC (coord s') = Closed"
    using s' by (intro exI [of _ s'] exI [of _ rs]) simp
  have skip: "Stop env ks cks s = Inr s"
    if "phase (lifecycle (coord s)) = NotStarted \<or> phase (lifecycle (coord s)) = Stopped"
    using that by (rule Stop_skip)
  have runs: "\<exists>s' rs. Stop env ks cks s = Inr s' \<and> length rs = length cs \<and>
               trace s' = trace s @
                 map (\<lambda>(k, c). ClusterConsumer_Stop c) es @
                 map (\<lambda>((k, c), r). Client_Close c r) (zip cs rs) @
                 [close_doneC,
                  logger_Info ''multicluster consumer stopped''
                    [zap_String ''groupName'' (groupName (coord s)),
                     zap_Array ''topicList'' (topics (coord s))],
                  Counter_Inc KafkaConsumerStopped] \<and>
               coord s' = (coord s)\<lparr>doneC := Closed,
                                    lifecycle := (lifecycle (coord s))\<lparr>phase := Stopped\<rparr>\<rparr>"
    if ph: "phase (lifecycle (coord s)) \<noteq> NotStarted \<and> phase (lifecycle (coord s)) \<noteq> Stopped"
  proof -
    from ph have p1: "phase (lifecycle (coord s)) \<noteq> NotStarted"
      and p2: "phase (lifecycle (coord s)) \<noteq> Stopped" by simp_all
    from Stop_run [OF p1 p2 assms(3), of env ks cks]
    obtain s2 rs2 where s2: "Stop env ks cks s = Inr s2"
      "coord s2 = (coord s)\<lparr>doneC := Closed,
                                lifecycle := (lifecycle (coord s))\<lparr>phase := Stopped\<rparr>\<rparr>"
      "length rs2 = length cs"
      "trace s2 = trace s @
                 map (\<lambda>(k, c). ClusterConsumer_Stop c) es @
                 map (\<lambda>((k, c), r). Client_Close c r) (zip cs rs2) @
                 [close_doneC,
                  logger_Info ''multicluster consumer stopped''
                    [zap_String ''groupName'' (groupName (coord s)),
                     zap_Array ''topicList'' (topics (coord s))],
                  Counter_Inc KafkaConsumerStopped]"
      unfolding assms(4,5) by blast
    show ?thesis
      by (intro exI [of _ s2] exI [of _ rs2] conjI) (fact s2)+
  qed
  have stop: "\<exists>s'. Stop env ks cks s = Inr s'"
  proof (cases "phase (lifecycle (coord s)) = NotStarted \<or> phase (lifecycle (coord s)) = Stopped")
    case True
    then show ?thesis using skip by blast
  next
    case False
    then show ?thesis using runs by blast
  qed
  from keys body stop skip runs show ?thesis by blast
qed

lemma ex_Start_ok:
  "Start ex_env_ok [''cc1'', ''cc2'', ''dlq-cluster''] [''dlq-cluster'', ''cc2'', ''cc1'']
      [''cc1''] (fresh ex_coord) = Inr (None, ex_running)"
  by (simp add: ex_running_def ex_env_ok_def fresh_def ex_coord_def ex_consumers_def
      ex_clients_def NewMultiClusterConsumer_def NewRunLifecycle_def run_defs)

lemma ex_running_fields:
  "clusterConsumerMap (coord ex_running) = ex_consumers"
  "clusterToSaramaClientMap (coord ex_running) = ex_clients"
  "doneC (coord ex_running) = Open"
  "phase (lifecycle (coord ex_running)) = Running"
  "groupName (coord ex_running) = ''unit-test-cg''"
  "topics (coord ex_running) = [ex_topic]"
  by (simp_all add: ex_running_def ex_coord_def NewMultiClusterConsumer_def NewRunLifecycle_def)

theorem Stop_teardown_witness:
  "range_order (clusterConsumerMap (coord ex_running)) [''dlq-cluster'', ''cc2'', ''cc1''] \<and>
   range_order (clusterToSaramaClientMap (coord ex_running)) [''cc1''] \<and>
   doneC (coord ex_running) = Open \<and>
   Start ex_env_ok [''cc1'', ''cc2'', ''dlq-cluster''] [''dlq-cluster'', ''cc2'', ''cc1'']
      [''cc1''] (fresh ex_coord) = Inr (None, ex_running) \<and>
   (\<exists>s' r. Stop ex_env_ok [''dlq-cluster'', ''cc2'', ''cc1''] [''cc1''] ex_running = Inr s' \<and>
      trace s' =
        trace ex_running @
        [ClusterConsumer_Stop (ClusterConsumerPtr 3), ClusterConsumer_Stop (ClusterConsumerPtr 2),
         ClusterConsumer_Stop (ClusterConsumerPtr 1), Client_Close (ClientRef 1) r, close_doneC,
         logger_Info ''multicluster consumer stopped''
           [zap_String ''groupName'' ''unit-test-cg'', zap_Array ''topicList'' [ex_topic]],
         Counter_Inc KafkaConsumerStopped] \<and>
      doneC (coord s') = Closed \<and> phase (lifecycle (coord s')) = Stopped)"
proof -
  let ?s = "ex_running"
  let ?es = "[(''dlq-cluster'', ClusterConsumerPtr 3), (''cc2'', ClusterConsumerPtr 2),
              (''cc1'', ClusterConsumerPtr 1)]"
  let ?cs = "[(''cc1'', ClientRef 1)]"
  have h1: "range_order (clusterConsumerMap (coord ?s)) [''dlq-cluster'', ''cc2'', ''cc1'']"
    by (simp only: ex_running_fields ex_orders)
  have h2: "range_order (clusterToSaramaClientMap (coord ?s)) [''cc1'']"
    by (simp only: ex_running_fields ex_orders)
  have h3: "doneC (coord ?s) = Open" by (rule ex_running_fields)
  have h4: "?es = range_entries (clusterConsumerMap (coord ?s)) [''dlq-cluster'', ''cc2'', ''cc1'']"
    by (simp only: ex_running_fields ex_entries)
  have h5: "?cs = range_entries (clusterToSaramaClientMap (coord ?s)) [''cc1'']"
    by (simp only: ex_running_fields ex_entries)
  have ph: "phase (lifecycle (coord ?s)) \<noteq> NotStarted \<and> phase (lifecycle (coord ?s)) \<noteq> Stopped"
    by (simp add: ex_running_fields)
  have "phase (lifecycle (coord ?s)) \<noteq> NotStarted \<and> phase (lifecycle (coord ?s)) \<noteq> Stopped \<longrightarrow>
          (\<exists>s' rs. Stop ex_env_ok [''dlq-cluster'', ''cc2'', ''cc1''] [''cc1''] ?s = Inr s' \<and>
             length rs = length ?cs \<and>
             trace s' = trace ?s @
               map (\<lambda>(k, c). ClusterConsumer_Stop c) ?es @
               map (\<lambda>((k, c), r). Client_Close c r) (zip ?cs rs) @
               [close_doneC,
                logger_Info ''multicluster consumer stopped''
                  [zap_String ''groupName'' (groupName (coord ?s)),
                   zap_Array ''topicList'' (topics (coord ?s))],
                Counter_Inc KafkaConsumerStopped] \<and>
             coord s' = (coord ?s)\<lparr>doneC := Closed,
                                    lifecycle := (lifecycle (coord ?s))\<lparr>phase := Stopped\<rparr>\<rparr>)"
    using Stop_teardown [OF h1 h2 h3 h4 h5, of ex_env_ok] by (elim conjE)
  then have "\<exists>s' rs. Stop ex_env_ok [''dlq-cluster'', ''cc2'', ''cc1''] [''cc1''] ?s = Inr s' \<and>
             length rs = length ?cs \<and>
             trace s' = trace ?s @
               map (\<lambda>(k, c). ClusterConsumer_Stop c) ?es @
               map (\<lambda>((k, c), r). Client_Close c r) (zip ?cs rs) @
               [close_doneC,
                logger_Info ''multicluster consumer stopped''
                  [zap_String ''groupName'' (groupName (coord ?s)),
                   zap_Array ''topicList'' (topics (coord ?s))],
                Counter_Inc KafkaConsumerStopped] \<and>
             coord s' = (coord ?s)\<lparr>doneC := Closed,
                                    lifecycle := (lifecycle (coord ?s))\<lparr>phase := Stopped\<rparr>\<rparr>"
    using ph by (rule mp)
  then obtain s' rs where s': "Stop ex_env_ok [''dlq-cluster'', ''cc2'', ''cc1''] [''cc1''] ?s = Inr s'"
    "length rs = length ?cs"
    "trace s' = trace ?s @
               map (\<lambda>(k, c). ClusterConsumer_Stop c) ?es @
               map (\<lambda>((k, c), r). Client_Close c r) (zip ?cs rs) @
               [close_doneC,
                logger_Info ''multicluster consumer stopped''
                  [zap_String ''groupName'' (groupName (coord ?s)),
                   zap_Array ''topicList'' (topics (coord ?s))],
                Counter_Inc KafkaConsumerStopped]"
    "coord s' = (coord ?s)\<lparr>doneC := Closed,
                              lifecycle := (lifecycle (coord ?s))\<lparr>phase := Stopped\<rparr>\<rparr>"
    by (elim exE conjE) (rule that)
  from s'(2) obtain r where rs: "rs = [r]" by (cases rs) auto
  have tr: "trace s' =
        trace ex_running @
        [ClusterConsumer_Stop (ClusterConsumerPtr 3), ClusterConsumer_Stop (ClusterConsumerPtr 2),
         ClusterConsumer_Stop (ClusterConsumerPtr 1), Client_Close (ClientRef 1) r, close_doneC,
         logger_Info ''multicluster consumer stopped''
           [zap_String ''groupName'' ''unit-test-cg'', zap_Array ''topicList'' [ex_topic]],
         Counter_Inc KafkaConsumerStopped]"
    unfolding s'(3) rs ex_running_fields by simp
  have cl: "doneC (coord s') = Closed" unfolding s'(4) by simp
  have st: "phase (lifecycle (coord s')) = Stopped" unfolding s'(4) by simp
  show ?thesis
    by (intro conjI exI [of _ s'] exI [of _ r]) (fact h1 h2 h3 ex_Start_ok s'(1) tr cl st)+
qed

section \<open>The two channels\<close>

text \<open>
  C7. The done channel is open when the coordinator is constructed. After any sequence
  of calls, none of which panics, the trace holds at most one close of it, the channel
  is closed exactly when the trace holds that close, and it is closed only if one of
  the calls went through \<open>Stop\<close>: a \<open>Stop\<close> call, or a \<open>Start\<close> that returned an
  error.
\<close>

theorem doneC_closed_once:
  assumes "c0 = NewMultiClusterConsumer name ts consumers clients ch"
  shows "Closed' c0 = Open \<and>
     (\<exists>rets s. run env calls (fresh c0) = Inr (rets, s :: 'r state) \<and>
        length rets = length calls \<and>
        count_list (trace s) close_doneC \<le> 1 \<and>
        (Closed' (coord s) = Closed \<longleftrightarrow> count_list (trace s) close_doneC = 1) \<and>
        (Closed' (coord s) = Closed \<longrightarrow>
           list_ex (\<lambda>(c, r). invokes_Stop c r) (zip calls rets)))"
proof -
  have g0: "guard_inv (fresh c0 :: 'r state)" unfolding assms by (rule fresh_inv)
  have op: "doneC (coord (fresh c0 :: 'r state)) = Open"
    by (simp add: assms fresh_def NewMultiClusterConsumer_def)
  have tr: "trace (fresh c0 :: 'r state) = []" by (simp add: fresh_def)
  have o0: "Closed' c0 = Open" by (simp add: assms Closed'_def NewMultiClusterConsumer_def)
  from run_outcome [OF g0, of env calls]
  obtain rets s evs where r: "run env calls (fresh c0) = Inr (rets, s :: 'r state)"
    "length rets = length calls" "trace s = trace (fresh c0 :: 'r state) @ evs"
    "count_list evs close_doneC =
       (if doneC (coord s) = doneC (coord (fresh c0 :: 'r state)) then 0 else 1)"
    "doneC (coord s) \<noteq> doneC (coord (fresh c0 :: 'r state)) \<longrightarrow>
       list_ex (\<lambda>(c, r). invokes_Stop c r) (zip calls rets)"
    by (elim exE conjE) (rule that)
  have cn: "count_list (trace s) close_doneC = (if doneC (coord s) = Open then 0 else 1)"
    using r(3,4) unfolding tr op by simp
  have a: "count_list (trace s) close_doneC \<le> 1" unfolding cn by simp
  have b: "Closed' (coord s) = Closed \<longleftrightarrow> count_list (trace s) close_doneC = 1"
    unfolding cn Closed'_def by (cases "doneC (coord s)") simp_all
  have c: "Closed' (coord s) = Closed \<longrightarrow> list_ex (\<lambda>(c, r). invokes_Stop c r) (zip calls rets)"
    using r(5) unfolding op Closed'_def by simp
  have "\<exists>rets s. run env calls (fresh c0) = Inr (rets, s :: 'r state) \<and>
        length rets = length calls \<and>
        count_list (trace s) close_doneC \<le> 1 \<and>
        (Closed' (coord s) = Closed \<longleftrightarrow> count_list (trace s) close_doneC = 1) \<and>
        (Closed' (coord s) = Closed \<longrightarrow>
           list_ex (\<lambda>(c, r). invokes_Stop c r) (zip calls rets))"
    by (intro exI [of _ rets] exI [of _ s] conjI) (fact r(1) r(2) a b c)+
  with o0 show ?thesis by (rule conjI)
qed

text \<open>
  C8. After any sequence of calls of the public methods the message channel is as it
  was handed to the constructor: no method closes it.
\<close>

theorem Messages_never_closed:
  assumes "c0 = NewMultiClusterConsumer name ts consumers clients ch"
  shows "Messages c0 = ch \<and>
     (\<exists>rets s. run env calls (fresh c0) = Inr (rets, s :: 'r state) \<and> Messages (coord s) = ch)"
proof -
  have g0: "guard_inv (fresh c0 :: 'r state)" unfolding assms by (rule fresh_inv)
  have m0: "Messages c0 = ch" by (simp add: assms Messages_def NewMultiClusterConsumer_def)
  have c0: "coord (fresh c0 :: 'r state) = c0" by (simp add: fresh_def)
  from run_outcome [OF g0, of env calls]
  obtain rets s where r: "run env calls (fresh c0) = Inr (rets, s :: 'r state)"
    "same_config (coord (fresh c0 :: 'r state)) (coord s)"
    by (elim exE conjE) (rule that)
  have "Messages (coord s) = ch"
    using r(2) m0 unfolding c0 by (simp add: same_config_def Messages_def)
  with r(1) have "\<exists>rets s. run env calls (fresh c0) = Inr (rets, s :: 'r state) \<and> Messages (coord s) = ch"
    by blast
  with m0 show ?thesis by (rule conjI)
qed


lemma ex_run:
  "map_sum id (\<lambda>(rets, s). (rets, Closed' (coord s), Messages (coord s)))
     (run ex_env ex_calls (fresh ex_coord)) =
   Inr ([Ret_error (Some (Err ''error'')), Ret_nothing, Ret_nothing, Ret_chan Closed, Ret_chan Open],
        Closed, Open)"
  by (simp add: ex_calls_def ex_defs run_defs Closed'_def Messages_def)

theorem doneC_closed_once_witness:
  "ex_coord = NewMultiClusterConsumer ''unit-test-cg'' [ex_topic] ex_consumers ex_clients Open \<and>
   Closed' ex_coord = Open \<and>
   (\<exists>s. run ex_env ex_calls (fresh ex_coord) =
          Inr ([Ret_error (Some (Err ''error'')), Ret_nothing, Ret_nothing, Ret_chan Closed,
                Ret_chan Open], s) \<and>
        Closed' (coord s) = Closed \<and> count_list (trace s) close_doneC = 1)"
proof -
  have h: "ex_coord = NewMultiClusterConsumer ''unit-test-cg'' [ex_topic] ex_consumers ex_clients Open"
    by (rule ex_coord_def)
  note th = doneC_closed_once [OF h, of ex_env ex_calls]
  have o: "Closed' ex_coord = Open" using th by (rule conjunct1)
  from th obtain rets s where r: "run ex_env ex_calls (fresh ex_coord) = Inr (rets, s)"
    "Closed' (coord s) = Closed \<longleftrightarrow> count_list (trace s) close_doneC = 1"
    by (elim exE conjE) (rule that)
  have "map_sum id (\<lambda>(rets, s). (rets, Closed' (coord s), Messages (coord s)))
          (Inr (rets, s) :: panic + ret list \<times> nat state) =
        Inr ([Ret_error (Some (Err ''error'')), Ret_nothing, Ret_nothing, Ret_chan Closed,
              Ret_chan Open], Closed, Open)"
    using ex_run unfolding r(1) .
  then have rets: "rets = [Ret_error (Some (Err ''error'')), Ret_nothing, Ret_nothing,
                           Ret_chan Closed, Ret_chan Open]"
    and cl: "Closed' (coord s) = Closed" by simp_all
  have cn: "count_list (trace s) close_doneC = 1" using r(2) cl by simp
  have rn: "run ex_env ex_calls (fresh ex_coord) =
          Inr ([Ret_error (Some (Err ''error'')), Ret_nothing, Ret_nothing, Ret_chan Closed,
                Ret_chan Open], s)"
    using r(1) unfolding rets .
  show ?thesis
    by (intro conjI exI [of _ s]) (fact h o rn cl cn)+
qed

theorem Messages_never_closed_witness:
  "ex_coord = NewMultiClusterConsumer ''unit-test-cg'' [ex_topic] ex_consumers ex_clients Open \<and>
   Messages ex_coord = Open \<and>
   (\<exists>s. run ex_env ex_calls (fresh ex_coord) =
          Inr ([Ret_error (Some (Err ''error'')), Ret_nothing, Ret_nothing, Ret_chan Closed,
                Ret_chan Open], s) \<and>
        Messages (coord s) = Open)"
proof -
  have h: "ex_coord = NewMultiClusterConsumer ''unit-test-cg'' [ex_topic] ex_consumers ex_clients Open"
    by (rule ex_coord_def)
  note th = Messages_never_closed [OF h, of ex_env ex_calls]
  have o: "Messages ex_coord = Open" using th by (rule conjunct1)
  from th obtain rets s where r: "run ex_env ex_calls (fresh ex_coord) = Inr (rets, s)"
    "Messages (coord s) = Open"
    by (elim exE conjE) (rule that)
  have "map_sum id (\<lambda>(rets, s). (rets, Closed' (coord s), Messages (coord s)))
          (Inr (rets, s) :: panic + ret list \<times> nat state) =
        Inr ([Ret_error (Some (Err ''error'')), Ret_nothing, Ret_nothing, Ret_chan Closed,
              Ret_chan Open], Closed, Open)"
    using ex_run unfolding r(1) .
  then have rets: "rets = [Ret_error (Some (Err ''error'')), Ret_nothing, Ret_nothing,
                           Ret_chan Closed, Ret_chan Open]"
    by simp
  have rn: "run ex_env ex_calls (fresh ex_coord) =
          Inr ([Ret_error (Some (Err ''error'')), Ret_nothing, Ret_nothing, Ret_chan Closed,
                Ret_chan Open], s)"
    using r(1) unfolding rets .
  show ?thesis
    by (intro conjI exI [of _ s]) (fact h o rn r(2))+
qed


end
